theory Spec2Isabelle
  imports Main "HOL-Library.Word"
begin

section \<open>JavaScript values that can reach the error path\<close>

text \<open>
  \<^verbatim>\<open>InternalServerError\<close> takes \<^verbatim>\<open>error: any\<close>: whatever a \<^verbatim>\<open>catch\<close> clause
  received. A value is a primitive or a reference into a heap of objects, so that
  an object can refer to itself (a circular structure).

  \<^item> Numbers are the integers of magnitude below \<open>2\<^sup>5\<^sup>3\<close>, each with its sign (so both zeros
    exist), \<^verbatim>\<open>NaN\<close> and the two infinities: all of them are doubles, and JavaScript writes
    the finite ones in plain decimal. Fractions are not modelled.
  \<^item> Strings are restricted to 8-bit characters.
  \<^item> A function is held as what a call of it does: it throws or it returns a value. Calls
    are repeatable: a function whose second call differs from its first is not modelled.
  \<^item> An array is its elements; a plain object is its enumerable own data properties, in
    the order in which \<^verbatim>\<open>JSON.stringify\<close> enumerates them.
  \<^item> An instance of \<^verbatim>\<open>Error\<close> (or of a subclass) is held as what a call of the
    \<^verbatim>\<open>toString\<close> method it inherits does, and its enumerable own properties. For an
    instance of \<^verbatim>\<open>Error\<close> itself the inherited method is \<^verbatim>\<open>Error.prototype.toString\<close>,
    which joins the name and the message, and throws a \<^verbatim>\<open>TypeError\<close> when one of them is
    a symbol. An own property \<^verbatim>\<open>toString\<close> hides the inherited method.
  \<^item> A proxy is held as the value every operation on it throws: a revoked proxy, whose
    operations throw a \<^verbatim>\<open>TypeError\<close>, or one whose traps all throw. It has no other
    behaviour here.

  Accessor properties and proxies with traps that return are outside this model, and so
  are the limits of an engine (the nesting depth at which it gives up). An address beyond
  the heap denotes nothing; \<^verbatim>\<open>JSON.stringify\<close> treats it as \<^verbatim>\<open>undefined\<close>.
\<close>

type_synonym addr = nat

datatype jsval =
    VUndefined
  | VNull
  | VBool bool
  | VNumber bool "53 word"
  | VNaN
  | VInfinity bool
  | VString string
  | VBigInt int
  | VSymbol string
  | VRef addr

datatype exn = TypeError string | SyntaxError string | Thrown jsval

datatype jsobj =
    OFunction "exn + jsval"
  | OArray "jsval list"
  | OObject "(string \<times> jsval) list"
  | OError "exn + jsval" "(string \<times> jsval) list"
  | OProxy exn

type_synonym heap = "jsobj list"

definition call :: "heap \<Rightarrow> jsval \<Rightarrow> (exn + jsval) option" where
  \<comment> \<open>\<open>None\<close> when the value is not callable, else what the call does\<close>
  "call h f =
     (case f of
        VRef a \<Rightarrow> if a < length h then (case h ! a of OFunction out \<Rightarrow> Some out | _ \<Rightarrow> None) else None
      | _ \<Rightarrow> None)"

definition own_property :: "heap \<Rightarrow> jsval \<Rightarrow> string \<Rightarrow> jsval option" where
  \<comment> \<open>the enumerable own property of an object under a key\<close>
  "own_property h v k =
     (case v of
        VRef a \<Rightarrow>
          if a < length h then
            (case h ! a of
               OObject ps \<Rightarrow> map_of ps k
             | OError out ps \<Rightarrow> map_of ps k
             | _ \<Rightarrow> None)
          else None
      | _ \<Rightarrow> None)"

definition trapped :: "heap \<Rightarrow> jsval \<Rightarrow> exn option" where
  \<comment> \<open>what an operation on the value throws because the value is a proxy\<close>
  "trapped h v =
     (case v of
        VRef a \<Rightarrow> if a < length h then (case h ! a of OProxy e \<Rightarrow> Some e | _ \<Rightarrow> None) else None
      | _ \<Rightarrow> None)"

definition Error_prototype_toString :: "string \<Rightarrow> string \<Rightarrow> exn + jsval" where
  \<comment> \<open>\<^verbatim>\<open>Error.prototype.toString\<close> on an error whose name and message are these strings\<close>
  "Error_prototype_toString n m =
     Inr (VString (if n = [] then m else if m = [] then n else n @ '': '' @ m))"

definition new_Error :: "string \<Rightarrow> jsobj" where
  \<comment> \<open>\<^verbatim>\<open>new Error(message)\<close>: the name is the inherited \<^verbatim>\<open>Error\<close>, no property is enumerable\<close>
  "new_Error m = OError (Error_prototype_toString ''Error'' m) []"

text \<open>
  A computation returns a value (\<open>Inr\<close>) or throws (\<open>Inl\<close>). \<open>sequence\<close> is
  evaluation from left to right: the first throw is the throw of the whole.
\<close>

fun sequence :: "('e + 'a) list \<Rightarrow> 'e + 'a list" where
  "sequence [] = Inr []"
| "sequence (Inl e # _) = Inl e"
| "sequence (Inr x # rs) = (case sequence rs of Inl e \<Rightarrow> Inl e | Inr xs \<Rightarrow> Inr (x # xs))"

fun join :: "string \<Rightarrow> string list \<Rightarrow> string" where
  "join sep [] = []"
| "join sep [s] = s"
| "join sep (s # t # ts) = s @ sep @ join sep (t # ts)"

subsection \<open>JSON.stringify\<close>

text \<open>
  \<^verbatim>\<open>JSON.stringify(value)\<close> with no replacer and no indentation, after ECMA-262
  (SerializeJSONProperty, QuoteJSONString, SerializeJSONObject, SerializeJSONArray). The
  result is a string, or \<^verbatim>\<open>undefined\<close> (\<open>None\<close>) for \<^verbatim>\<open>undefined\<close>, a function or a symbol;
  a BigInt and a structure that contains itself throw a \<^verbatim>\<open>TypeError\<close>, and so does
  whatever a \<^verbatim>\<open>toJSON\<close> method throws. The stack holds the objects being serialized; an
  object already on it closes a cycle.
\<close>

definition hexdigit :: "nat \<Rightarrow> char" where
  \<comment> \<open>only applied below 16\<close>
  "hexdigit d = ''0123456789abcdef'' ! d"

fun show_nat :: "nat \<Rightarrow> string" where
  "show_nat n = (if n < 10 then [hexdigit n] else show_nat (n div 10) @ [hexdigit (n mod 10)])"

declare show_nat.simps [simp del]

definition Number_toString :: "bool \<Rightarrow> 53 word \<Rightarrow> string" where
  \<comment> \<open>the sign is written for a negative number other than zero\<close>
  "Number_toString negative m =
     (if negative \<and> m \<noteq> 0 then ''-'' @ show_nat (unat m) else show_nat (unat m))"

definition QuoteJSONChar :: "char \<Rightarrow> string" where
  "QuoteJSONChar c =
     (if c = CHR 0x22 then [CHR 0x5C, CHR 0x22]
      else if c = CHR 0x5C then [CHR 0x5C, CHR 0x5C]
      else if c = CHR 0x08 then [CHR 0x5C, CHR ''b'']
      else if c = CHR 0x09 then [CHR 0x5C, CHR ''t'']
      else if c = CHR 0x0A then [CHR 0x5C, CHR ''n'']
      else if c = CHR 0x0C then [CHR 0x5C, CHR ''f'']
      else if c = CHR 0x0D then [CHR 0x5C, CHR ''r'']
      else if (of_char c :: nat) < 32
        then [CHR 0x5C, CHR ''u'', CHR ''0'', CHR ''0'',
              hexdigit (of_char c div 16), hexdigit (of_char c mod 16)]
      else [c])"

definition QuoteJSONString :: "string \<Rightarrow> string" where
  "QuoteJSONString s = [CHR 0x22] @ concat (map QuoteJSONChar s) @ [CHR 0x22]"

text \<open>
  The recursion ends because every nested call pushes an address of the heap that is not
  yet on the stack.
\<close>

definition unvisited :: "heap \<Rightarrow> addr list \<Rightarrow> nat" where
  "unvisited h stk = length h - card (set stk \<inter> {..<length h})"

lemma unvisited_push:
  assumes "a < length h" "a \<notin> set stk"
  shows "unvisited h (a # stk) < unvisited h stk"
proof -
  let ?U = "{..<length h}"
  have fin: "finite (set stk \<inter> ?U)" by simp
  have ins: "set (a # stk) \<inter> ?U = insert a (set stk \<inter> ?U)" using assms by auto
  have notin: "a \<notin> set stk \<inter> ?U" using assms by simp
  have c: "card (set (a # stk) \<inter> ?U) = Suc (card (set stk \<inter> ?U))"
    unfolding ins using fin notin by simp
  have "card (set (a # stk) \<inter> ?U) \<le> card ?U" by (rule card_mono) auto
  then have "Suc (card (set stk \<inter> ?U)) \<le> length h" using c by simp
  then show ?thesis unfolding unvisited_def c by arith
qed

definition member_text :: "string \<times> string option \<Rightarrow> string list" where
  "member_text kv = (case snd kv of None \<Rightarrow> [] | Some s \<Rightarrow> [QuoteJSONString (fst kv) @ '':'' @ s])"

definition element_text :: "string option \<Rightarrow> string" where
  "element_text r = (case r of None \<Rightarrow> ''null'' | Some s \<Rightarrow> s)"

definition keyed :: "string \<Rightarrow> exn + string option \<Rightarrow> exn + (string \<times> string option)" where
  "keyed k r = (case r of Inl e \<Rightarrow> Inl e | Inr s \<Rightarrow> Inr (k, s))"

definition apply_toJSON :: "heap \<Rightarrow> jsval \<Rightarrow> exn + jsval" where
  \<comment> \<open>an object with a callable \<^verbatim>\<open>toJSON\<close> is replaced by what the call returns\<close>
  "apply_toJSON h v =
     (case trapped h v of
        Some e \<Rightarrow> Inl e
      | None \<Rightarrow>
          (case own_property h v ''toJSON'' of
             None \<Rightarrow> Inr v
           | Some m \<Rightarrow> (case call h m of None \<Rightarrow> Inr v | Some out \<Rightarrow> out)))"

function SerializeJSONProperty :: "heap \<Rightarrow> addr list \<Rightarrow> jsval \<Rightarrow> exn + string option" where
  "SerializeJSONProperty h stk v0 =
     (case apply_toJSON h v0 of
        Inl e \<Rightarrow> Inl e
      | Inr v \<Rightarrow>
     (case v of
        VNull \<Rightarrow> Inr (Some ''null'')
      | VBool b \<Rightarrow> Inr (Some (if b then ''true'' else ''false''))
      | VString s \<Rightarrow> Inr (Some (QuoteJSONString s))
      | VNumber negative m \<Rightarrow> Inr (Some (Number_toString negative m))
      | VNaN \<Rightarrow> Inr (Some ''null'')
      | VInfinity _ \<Rightarrow> Inr (Some ''null'')
      | VBigInt _ \<Rightarrow> Inl (TypeError ''Do not know how to serialize a BigInt'')
      | VUndefined \<Rightarrow> Inr None
      | VSymbol _ \<Rightarrow> Inr None
      | VRef a \<Rightarrow>
          (if a < length h then
             (case h ! a of
                OFunction out \<Rightarrow> Inr None
              | OArray vs \<Rightarrow>
                  (if a \<in> set stk then Inl (TypeError ''Converting circular structure to JSON'')
                   else (case sequence (map (\<lambda>x. SerializeJSONProperty h (a # stk) x) vs) of
                           Inl e \<Rightarrow> Inl e
                         | Inr rs \<Rightarrow> Inr (Some (''['' @ join '','' (map element_text rs) @ '']''))))
              | OObject ps \<Rightarrow>
                  (if a \<in> set stk then Inl (TypeError ''Converting circular structure to JSON'')
                   else (case sequence (map (\<lambda>p. keyed (fst p) (SerializeJSONProperty h (a # stk) (snd p))) ps) of
                           Inl e \<Rightarrow> Inl e
                         | Inr rs \<Rightarrow> Inr (Some (''{'' @ join '','' (concat (map member_text rs)) @ ''}''))))
              | OError out ps \<Rightarrow>
                  (if a \<in> set stk then Inl (TypeError ''Converting circular structure to JSON'')
                   else (case sequence (map (\<lambda>p. keyed (fst p) (SerializeJSONProperty h (a # stk) (snd p))) ps) of
                           Inl e \<Rightarrow> Inl e
                         | Inr rs \<Rightarrow> Inr (Some (''{'' @ join '','' (concat (map member_text rs)) @ ''}''))))
              | OProxy e \<Rightarrow> Inl e)
           else Inr None)))"
  by pat_completeness auto
termination
  by (relation "measure (\<lambda>(h, stk, v). unvisited h stk)") (auto simp: unvisited_push)

declare SerializeJSONProperty.simps [simp del]

definition JSON_stringify :: "heap \<Rightarrow> jsval \<Rightarrow> exn + string option" where
  "JSON_stringify h v = SerializeJSONProperty h [] v"

section \<open>JSON.parse as a recogniser\<close>

text \<open>
  \<^verbatim>\<open>isSerializable\<close> calls \<^verbatim>\<open>JSON.parse\<close> and drops the value it returns: only
  whether the call throws is observed. The text is read one code unit at a time by a
  pushdown recogniser of the JSON grammar (ECMA-404): \<open>mode\<close> is the place in the
  grammar, the stack lists the open arrays and objects.
\<close>

datatype ctx = InArray | InObject

datatype mode =
    Go
  | Done
  | ArrFirst
  | ObjFirst
  | Key
  | Colon
  | Str bool
  | Esc bool
  | Hex bool nat
  | Lit string
  | Minus
  | Zero
  | IntPart
  | FracStart
  | Frac
  | ExpStart
  | ExpSign
  | Exp

definition is_ws :: "char \<Rightarrow> bool" where
  "is_ws c = (c = CHR '' '' \<or> c = CHR 0x09 \<or> c = CHR 0x0A \<or> c = CHR 0x0D)"

definition is_digit :: "char \<Rightarrow> bool" where
  "is_digit c = (c \<in> set ''0123456789'')"

definition is_hex :: "char \<Rightarrow> bool" where
  "is_hex c = (c \<in> set ''0123456789abcdefABCDEF'')"

definition close_ctx :: "ctx \<Rightarrow> ctx list \<Rightarrow> (mode \<times> ctx list) option" where
  "close_ctx k stk = (case stk of [] \<Rightarrow> None | t # r \<Rightarrow> if t = k then Some (Done, r) else None)"

definition after_value :: "ctx list \<Rightarrow> char \<Rightarrow> (mode \<times> ctx list) option" where
  "after_value stk c =
     (if is_ws c then Some (Done, stk)
      else if c = CHR '','' then
        (case stk of [] \<Rightarrow> None | InArray # _ \<Rightarrow> Some (Go, stk) | InObject # _ \<Rightarrow> Some (Key, stk))
      else if c = CHR '']'' then close_ctx InArray stk
      else if c = CHR ''}'' then close_ctx InObject stk
      else None)"

definition start_value :: "ctx list \<Rightarrow> char \<Rightarrow> (mode \<times> ctx list) option" where
  "start_value stk c =
     (if c = CHR 0x22 then Some (Str False, stk)
      else if c = CHR ''{'' then Some (ObjFirst, InObject # stk)
      else if c = CHR ''['' then Some (ArrFirst, InArray # stk)
      else if c = CHR ''-'' then Some (Minus, stk)
      else if c = CHR ''0'' then Some (Zero, stk)
      else if is_digit c then Some (IntPart, stk)
      else if c = CHR ''t'' then Some (Lit ''rue'', stk)
      else if c = CHR ''f'' then Some (Lit ''alse'', stk)
      else if c = CHR ''n'' then Some (Lit ''ull'', stk)
      else None)"

definition is_exp :: "char \<Rightarrow> bool" where
  "is_exp c = (c = CHR ''e'' \<or> c = CHR ''E'')"

fun step :: "mode \<Rightarrow> ctx list \<Rightarrow> char \<Rightarrow> (mode \<times> ctx list) option" where
  "step Go stk c = (if is_ws c then Some (Go, stk) else start_value stk c)"
| "step Done stk c = after_value stk c"
| "step ArrFirst stk c =
     (if is_ws c then Some (ArrFirst, stk)
      else if c = CHR '']'' then close_ctx InArray stk
      else start_value stk c)"
| "step ObjFirst stk c =
     (if is_ws c then Some (ObjFirst, stk)
      else if c = CHR ''}'' then close_ctx InObject stk
      else if c = CHR 0x22 then Some (Str True, stk)
      else None)"
| "step Key stk c =
     (if is_ws c then Some (Key, stk)
      else if c = CHR 0x22 then Some (Str True, stk)
      else None)"
| "step Colon stk c =
     (if is_ws c then Some (Colon, stk)
      else if c = CHR '':'' then Some (Go, stk)
      else None)"
| "step (Str k) stk c =
     (if c = CHR 0x22 then Some (if k then Colon else Done, stk)
      else if c = CHR 0x5C then Some (Esc k, stk)
      else if (of_char c :: nat) < 32 then None
      else Some (Str k, stk))"
| "step (Esc k) stk c =
     (if c = CHR ''u'' then Some (Hex k 4, stk)
      else if c \<in> set [CHR 0x22, CHR 0x5C, CHR ''/'', CHR ''b'', CHR ''f'', CHR ''n'', CHR ''r'', CHR ''t'']
        then Some (Str k, stk)
      else None)"
| "step (Hex k n) stk c =
     (if is_hex c then Some (if n \<le> 1 then Str k else Hex k (n - 1), stk) else None)"
| "step (Lit rest) stk c =
     (case rest of
        [] \<Rightarrow> None
      | r # rs \<Rightarrow> if c = r then Some (if rs = [] then Done else Lit rs, stk) else None)"
| "step Minus stk c =
     (if c = CHR ''0'' then Some (Zero, stk)
      else if is_digit c then Some (IntPart, stk)
      else None)"
| "step Zero stk c =
     (if c = CHR ''.'' then Some (FracStart, stk)
      else if is_exp c then Some (ExpStart, stk)
      else after_value stk c)"
| "step IntPart stk c =
     (if is_digit c then Some (IntPart, stk)
      else if c = CHR ''.'' then Some (FracStart, stk)
      else if is_exp c then Some (ExpStart, stk)
      else after_value stk c)"
| "step FracStart stk c = (if is_digit c then Some (Frac, stk) else None)"
| "step Frac stk c =
     (if is_digit c then Some (Frac, stk)
      else if is_exp c then Some (ExpStart, stk)
      else after_value stk c)"
| "step ExpStart stk c =
     (if c = CHR ''+'' \<or> c = CHR ''-'' then Some (ExpSign, stk)
      else if is_digit c then Some (Exp, stk)
      else None)"
| "step ExpSign stk c = (if is_digit c then Some (Exp, stk) else None)"
| "step Exp stk c = (if is_digit c then Some (Exp, stk) else after_value stk c)"

fun run :: "mode \<Rightarrow> ctx list \<Rightarrow> string \<Rightarrow> (mode \<times> ctx list) option" where
  "run m stk [] = Some (m, stk)"
| "run m stk (c # cs) = (case step m stk c of None \<Rightarrow> None | Some (m', stk') \<Rightarrow> run m' stk' cs)"

definition complete :: "mode \<Rightarrow> bool" where
  "complete m = (m \<in> set [Done, Zero, IntPart, Frac, Exp])"

definition ToString_opt :: "string option \<Rightarrow> string" where
  \<comment> \<open>the argument of \<^verbatim>\<open>JSON.parse\<close> is converted to a string: \<^verbatim>\<open>undefined\<close> reads
      as the nine letters of its name\<close>
  "ToString_opt r = (case r of None \<Rightarrow> ''undefined'' | Some s \<Rightarrow> s)"

definition JSON_parse :: "string option \<Rightarrow> exn + unit" where
  "JSON_parse r =
     (case run Go [] (ToString_opt r) of
        Some (m, []) \<Rightarrow> if complete m then Inr () else Inl (SyntaxError ''Unexpected end of JSON input'')
      | Some (m, _ # _) \<Rightarrow> Inl (SyntaxError ''Unexpected end of JSON input'')
      | None \<Rightarrow> Inl (SyntaxError ''Unexpected token in JSON''))"

section \<open>src/util/errors/internal-server-error.ts\<close>

definition isSerializable :: "heap \<Rightarrow> jsval \<Rightarrow> bool" where
  \<comment> \<open>\<^verbatim>\<open>try { JSON.parse(JSON.stringify(value)); return true } catch (error) { return false }\<close>\<close>
  "isSerializable h v =
     (case JSON_stringify h v of
        Inl e \<Rightarrow> False
      | Inr r \<Rightarrow> (case JSON_parse r of Inl e \<Rightarrow> False | Inr u \<Rightarrow> True))"

text \<open>
  The members of \<^verbatim>\<open>StatusCodes\<close> (package http-status-codes) that the repository names,
  with their numbers and the phrases \<^verbatim>\<open>getReasonPhrase\<close> gives for them.
\<close>

datatype StatusCodes = OK | CREATED | NOT_FOUND | UNPROCESSABLE_ENTITY | INTERNAL_SERVER_ERROR

fun status_number :: "StatusCodes \<Rightarrow> int" where
  "status_number OK = 200"
| "status_number CREATED = 201"
| "status_number NOT_FOUND = 404"
| "status_number UNPROCESSABLE_ENTITY = 422"
| "status_number INTERNAL_SERVER_ERROR = 500"

fun getReasonPhrase :: "StatusCodes \<Rightarrow> string" where
  "getReasonPhrase OK = ''OK''"
| "getReasonPhrase CREATED = ''Created''"
| "getReasonPhrase NOT_FOUND = ''Not Found''"
| "getReasonPhrase UNPROCESSABLE_ENTITY = ''Unprocessable Entity''"
| "getReasonPhrase INTERNAL_SERVER_ERROR = ''Internal Server Error''"

text \<open>Documents the program builds itself are finite trees.\<close>

datatype json =
    JNull
  | JBool bool
  | JNum int
  | JStr string
  | JArr "json list"
  | JObj "(string \<times> json) list"

fun field :: "string \<Rightarrow> json \<Rightarrow> json option" where
  "field k (JObj ps) = map_of ps k"
| "field k _ = None"

record InternalServerError =
  name :: string
  message :: string
  statusCode :: StatusCodes
  error :: jsval
  detail :: jsval

definition generic_detail :: string where
  "generic_detail =
     ''The server encountered an internal error or misconfiguration and was unable to complete your request.''
     @ [CHR 0x0A] @
     ''    Please contact the server administrator and inform them of the time the error occurred and anything you might have done that may have caused the error.''
     @ [CHR 0x0A] @
     ''    More information about this error may be available in the server error log.''"

definition new_InternalServerError :: "jsval \<Rightarrow> InternalServerError" where
  \<comment> \<open>\<^verbatim>\<open>super()\<close> is called without a message, so \<^verbatim>\<open>this.message\<close> is the empty string
      of \<^verbatim>\<open>Error.prototype\<close>; the constructor never assigns it\<close>
  "new_InternalServerError e =
     \<lparr> name = ''InternalServerError'',
       message = '''',
       statusCode = INTERNAL_SERVER_ERROR,
       error = e,
       detail = VString generic_detail \<rparr>"

definition instanceof_Error :: "heap \<Rightarrow> jsval \<Rightarrow> exn + bool" where
  \<comment> \<open>\<^verbatim>\<open>v instanceof Error\<close> walks the prototype chain of an object, which a proxy can
      refuse\<close>
  "instanceof_Error h v =
     (case v of
        VRef a \<Rightarrow>
          if a < length h then
            (case h ! a of
               OError out ps \<Rightarrow> Inr True
             | OProxy e \<Rightarrow> Inl e
             | _ \<Rightarrow> Inr False)
          else Inr False
      | _ \<Rightarrow> Inr False)"

definition Error_toString :: "heap \<Rightarrow> jsval \<Rightarrow> exn + jsval" where
  \<comment> \<open>the call \<^verbatim>\<open>this.error.toString()\<close> on an instance of \<^verbatim>\<open>Error\<close>: an own property
      \<^verbatim>\<open>toString\<close> is called when it is callable and is a \<^verbatim>\<open>TypeError\<close> when it is not;
      without one the inherited method runs. Either may throw, or return any value.
      \<^verbatim>\<open>toJSON\<close> makes the call on instances of \<^verbatim>\<open>Error\<close> only; the last line stands for
      everything else.\<close>
  "Error_toString h v =
     (case own_property h v ''toString'' of
        Some m \<Rightarrow>
          (case call h m of
             Some out \<Rightarrow> out
           | None \<Rightarrow> Inl (TypeError ''this.error.toString is not a function''))
      | None \<Rightarrow>
          (case v of
             VRef a \<Rightarrow>
               if a < length h then
                 (case h ! a of
                    OError out ps \<Rightarrow> out
                  | _ \<Rightarrow> Inl (TypeError ''not an instance of Error''))
               else Inl (TypeError ''not an instance of Error'')
           | _ \<Rightarrow> Inl (TypeError ''not an instance of Error'')))"

definition ToValue :: "string option \<Rightarrow> jsval" where
  \<comment> \<open>what \<^verbatim>\<open>JSON.stringify\<close> returned, as a value\<close>
  "ToValue r = (case r of None \<Rightarrow> VUndefined | Some s \<Rightarrow> VString s)"

definition toJSON :: "heap \<Rightarrow> InternalServerError \<Rightarrow> exn + (json \<times> InternalServerError)" where
  "toJSON h this =
     (case
        (case instanceof_Error h (error this) of
           Inl e \<Rightarrow> Inl e
         | Inr True \<Rightarrow>
             (case Error_toString h (error this) of
                Inl e \<Rightarrow> Inl e
              | Inr r \<Rightarrow> Inr (this\<lparr>detail := r\<rparr>))
         | Inr False \<Rightarrow>
             if isSerializable h (error this)
               then (case JSON_stringify h (error this) of
                       Inl e \<Rightarrow> Inl e
                     | Inr r \<Rightarrow> Inr (this\<lparr>detail := ToValue r\<rparr>))
             else Inr this)
      of
        Inl e \<Rightarrow> Inl e
      | Inr this' \<Rightarrow>
          Inr (JObj [(''status'', JStr (getReasonPhrase (statusCode this'))),
                     (''title'', JStr (name this')),
                     (''detail'', JStr (message this'))],
               this'))"

definition serialized :: "heap \<Rightarrow> jsval \<Rightarrow> exn + json" where
  \<comment> \<open>what a serializer that calls \<^verbatim>\<open>toJSON\<close> obtains for \<^verbatim>\<open>new InternalServerError(e)\<close>\<close>
  "serialized h e = map_sum id fst (toJSON h (new_InternalServerError e))"

section \<open>The store, the validators and the documents the controller relies on\<close>

text \<open>
  \<^verbatim>\<open>userController.ts\<close> imports \<^verbatim>\<open>../lib/db\<close>, \<^verbatim>\<open>../lib/controller\<close>,
  \<^verbatim>\<open>../lib/express-validator/*\<close>, \<^verbatim>\<open>../lib/json-api/response\<close> and \<^verbatim>\<open>../models\<close>; none
  of them is among the source files. What the controller needs of them is modelled here
  from the specification; what the specification leaves open (the validator predicates,
  the messages, the model's setters and its public representation, the random source) is
  a parameter, collected in \<open>deps\<close>, over which every theorem quantifies. So is the
  helper \<^verbatim>\<open>internalServerError(error)\<close> of \<^verbatim>\<open>lib/controller\<close>, the error object the
  handlers send with a 500: it reads the thrown value in the heap it lives in.
\<close>

type_synonym row = "(string \<times> jsval) list"

definition get :: "row \<Rightarrow> string \<Rightarrow> jsval" where
  \<comment> \<open>reading a property: \<^verbatim>\<open>undefined\<close> when the object has no such key\<close>
  "get r k = (case map_of r k of None \<Rightarrow> VUndefined | Some v \<Rightarrow> v)"

datatype constraint =
    MustExist
  | MustNotExist
  | MustNotBeEmpty
  | MustBeEmailShaped
  | MustMeetPasswordStrength
  | Normalize

record deps =
  isEmpty :: "jsval \<Rightarrow> bool"
  isEmail :: "jsval \<Rightarrow> bool"
  isStrongPassword :: "jsval \<Rightarrow> bool"
  normalizeEmail :: "jsval \<Rightarrow> jsval"
  errorMessage :: "constraint \<Rightarrow> string"
  blocking :: "constraint \<Rightarrow> bool"
  notFoundDetail :: string
  internalServerError :: "heap \<Rightarrow> jsval \<Rightarrow> json"
  setter :: "string \<Rightarrow> jsval \<Rightarrow> jsval"
  convert :: "row \<Rightarrow> json"
  rng :: "nat \<Rightarrow> nat"

subsection \<open>Field constraints and the validation runner\<close>

text \<open>
  Modelled from the spec: the option bundles of
  \<^verbatim>\<open>lib/express-validator/custom-param-schemas\<close> (section 4.1: a bundle is a list of
  constraints, merging appends, the \<^verbatim>\<open>{...a, ...b}\<close> of the source).
\<close>

definition shouldExist :: "constraint list" where
  "shouldExist = [MustExist]"

definition shouldNotExist :: "constraint list" where
  "shouldNotExist = [MustNotExist]"

definition shouldNotBeEmpty :: "constraint list" where
  "shouldNotBeEmpty = [MustNotBeEmpty]"

definition shouldBeEmail :: "constraint list" where
  "shouldBeEmail = [MustBeEmailShaped]"

definition shouldBeStrongPassword :: "constraint list" where
  "shouldBeStrongPassword = [MustMeetPasswordStrength]"

text \<open>
  A validation is one field with its chain; \<open>guarded\<close> is the
  \<^verbatim>\<open>.if(body(field).exists())\<close> of the partial schema.
\<close>

datatype validation = Validation (vfield: string) (guarded: bool) (chain: "constraint list")

definition checkBodySchema :: "(string \<times> constraint list) list \<Rightarrow> validation list" where
  \<comment> \<open>Modelled from the spec: \<^verbatim>\<open>checkBodySchema\<close> of
      \<^verbatim>\<open>lib/express-validator/custom-param-schemas\<close>; the full schema of section 4.1, every
      field always checked\<close>
  "checkBodySchema schema = map (\<lambda>(f, cs). Validation f False cs) schema"

type_synonym failure = "string \<times> constraint \<times> string"

fun passes :: "deps \<Rightarrow> constraint \<Rightarrow> jsval \<Rightarrow> bool" where
  "passes D MustExist v = (v \<noteq> VUndefined)"
| "passes D MustNotExist v = (v = VUndefined)"
| "passes D MustNotBeEmpty v = (\<not> isEmpty D v)"
| "passes D MustBeEmailShaped v = isEmail D v"
| "passes D MustMeetPasswordStrength v = isStrongPassword D v"
| "passes D Normalize v = True"

fun run_chain :: "deps \<Rightarrow> string \<Rightarrow> bool \<Rightarrow> jsval \<Rightarrow> constraint list \<Rightarrow> failure list \<times> jsval" where
  \<comment> \<open>Modelled from the spec: the validation runner behind \<^verbatim>\<open>runAllValidations\<close> (section 4.2),
      on the chain of one field. A failed check is
      recorded; a blocking one ends the chain; normalization is applied only to a present
      value that has passed every check before it.\<close>
  "run_chain D f failed v [] = ([], v)"
| "run_chain D f failed v (Normalize # cs) =
     run_chain D f failed (if failed \<or> v = VUndefined then v else normalizeEmail D v) cs"
| "run_chain D f failed v (c # cs) =
     (if passes D c v then run_chain D f failed v cs
      else if blocking D c then ([(f, c, errorMessage D c)], v)
      else (case run_chain D f True v cs of (fs, v') \<Rightarrow> ((f, c, errorMessage D c) # fs, v')))"

definition run_validation :: "deps \<Rightarrow> row \<Rightarrow> validation \<Rightarrow> failure list \<times> row" where
  \<comment> \<open>Modelled from the spec: the validation runner (section 4.2), on one field of the
      schema; a guarded field that is absent is vacuously valid: its chain is not run. The
      second component is what the controller then reads with \<^verbatim>\<open>matchedData(req)\<close> of
      express-validator: the field under its name with the value the chain left, also when
      that value is \<^verbatim>\<open>undefined\<close> (the chains are not declared \<^verbatim>\<open>optional()\<close>, and only
      an optional field without a value is left out).\<close>
  "run_validation D payload val =
     (let v = get payload (vfield val) in
      if guarded val \<and> v = VUndefined then ([], [(vfield val, VUndefined)])
      else (case run_chain D (vfield val) False v (chain val) of
              (fs, v') \<Rightarrow> (fs, [(vfield val, v')])))"

datatype outcome = Valid row | Invalid "failure list"

definition runAllValidations :: "deps \<Rightarrow> validation list \<Rightarrow> row \<Rightarrow> outcome" where
  \<comment> \<open>Modelled from the spec: \<^verbatim>\<open>runAllValidations\<close> of
      \<^verbatim>\<open>lib/express-validator/custom-param-schemas\<close>, with the \<^verbatim>\<open>validationResult\<close> and
      \<^verbatim>\<open>matchedData\<close> read after it (section 4.2); every field is run, none is skipped because
      another failed; \<open>Valid\<close> carries what \<^verbatim>\<open>matchedData\<close> returns\<close>
  "runAllValidations D vals payload =
     (let rs = map (run_validation D payload) vals;
          fs = concat (map fst rs)
      in if fs = [] then Valid (concat (map snd rs)) else Invalid fs)"

fun keep_first :: "'a list \<Rightarrow> 'a list \<Rightarrow> 'a list" where
  "keep_first seen [] = []"
| "keep_first seen (x # xs) = (if x \<in> set seen then keep_first seen xs else x # keep_first (x # seen) xs)"

definition errorFormatter :: "failure list \<Rightarrow> (string \<times> string) list" where
  \<comment> \<open>Modelled from the spec: \<^verbatim>\<open>errorFormatter\<close> of \<^verbatim>\<open>lib/express-validator/error-formatter\<close>
      (section 4.3); only field and message are kept, a repeated
      pair is dropped, the order of the fields' declaration is kept\<close>
  "errorFormatter fs = keep_first [] (map (\<lambda>(f, c, m). (f, m)) fs)"

definition validationError :: "(string \<times> string) list \<Rightarrow> json" where
  \<comment> \<open>Modelled from the spec: \<^verbatim>\<open>validationError\<close> of \<^verbatim>\<open>lib/express-validator/error-formatter\<close>
      (section 4.4); one entry per failure, status 422\<close>
  "validationError es =
     JArr (map (\<lambda>(f, m). JObj [(''status'', JNum (status_number UNPROCESSABLE_ENTITY)),
                                (''title'', JStr (getReasonPhrase UNPROCESSABLE_ENTITY)),
                                (''detail'', JStr m),
                                (''source'', JObj [(''field'', JStr f)])]) es)"

definition resourceNotFound :: "deps \<Rightarrow> json" where
  \<comment> \<open>Modelled from the spec: \<^verbatim>\<open>resourceNotFound\<close> of \<^verbatim>\<open>lib/controller\<close> (section 4.4); the one
      entry of a lookup miss\<close>
  "resourceNotFound D =
     JObj [(''status'', JNum (status_number NOT_FOUND)),
           (''title'', JStr (getReasonPhrase NOT_FOUND)),
           (''detail'', JStr (notFoundDetail D))]"

definition docWithErrors :: "json \<Rightarrow> json" where
  \<comment> \<open>Modelled from the spec: \<^verbatim>\<open>docWithErrors\<close> of \<^verbatim>\<open>lib/json-api/response\<close> (section 6);
      \<^verbatim>\<open>{ errors: [...] }\<close>, a single entry is wrapped\<close>
  "docWithErrors e = JObj [(''errors'', (case e of JArr es \<Rightarrow> JArr es | _ \<Rightarrow> JArr [e]))]"

definition docWithData :: "json \<Rightarrow> json" where
  \<comment> \<open>Modelled from the spec: \<^verbatim>\<open>docWithData\<close> of \<^verbatim>\<open>lib/json-api/response\<close> (section 6);
      \<^verbatim>\<open>{ data: ... }\<close>\<close>
  "docWithData d = JObj [(''data'', d)]"

subsection \<open>The store\<close>

datatype call =
    FindAll
  | FindByPk string
  | Create row
  | Update string row
  | Destroy string
  | Reload string

datatype event = Begin | Commit | Rollback | Call bool call

text \<open>
  What happens at a coming store call: the store goes on; or it throws a value; or writes
  that other requests committed in the meantime have landed (the rows are then the given
  ones) and the store goes on. Requests share nothing but the store.
\<close>

datatype directive = Proceed | Fault jsval | Others "(string \<times> row) list"

text \<open>
  The world a handler runs in: the persisted rows by identifier, the store calls issued so
  far (oldest first; the flag of a call says whether it was passed a transaction), what
  happens at each coming store call (past the end of the list every call goes on), the
  next identifier the store assigns, the number of random draws made, and the heap in
  which thrown values live.
\<close>

record world =
  table :: "(string \<times> row) list"
  trace :: "event list"
  pending :: "directive list"
  next_id :: nat
  drawn :: nat
  mem :: heap

definition record_event :: "event \<Rightarrow> world \<Rightarrow> world" where
  "record_event e w = w\<lparr>trace := trace w @ [e]\<rparr>"

definition attempt :: "bool \<Rightarrow> call \<Rightarrow> world \<Rightarrow> jsval option \<times> world" where
  \<comment> \<open>issue a store call: it is logged, and the store either throws (\<open>Some e\<close>) or goes
      on, on the rows as they are by then\<close>
  "attempt t c w =
     (case pending w of
        [] \<Rightarrow> (None, record_event (Call t c) w)
      | Proceed # ds \<Rightarrow> (None, (record_event (Call t c) w)\<lparr>pending := ds\<rparr>)
      | Fault e # ds \<Rightarrow> (Some e, (record_event (Call t c) w)\<lparr>pending := ds\<rparr>)
      | Others rows # ds \<Rightarrow> (None, (record_event (Call t c) w)\<lparr>pending := ds, table := rows\<rparr>))"

fun put :: "string \<Rightarrow> 'a \<Rightarrow> (string \<times> 'a) list \<Rightarrow> (string \<times> 'a) list" where
  "put k v [] = [(k, v)]"
| "put k v ((k', v') # r) = (if k = k' then (k, v) # r else (k', v') # put k v r)"

definition assign :: "deps \<Rightarrow> row \<Rightarrow> row \<Rightarrow> row" where
  \<comment> \<open>the model's setters store the submitted values; a key whose value is \<^verbatim>\<open>undefined\<close>
      is ignored\<close>
  "assign D r values =
     foldl (\<lambda>acc (k, v). if v = VUndefined then acc else put k (setter D k v) acc) r values"

text \<open>
  Modelled from the spec: the store behind the model \<^verbatim>\<open>User\<close> (section 6, Resource
  Store). These are the calls the controller makes on
  the model \<^verbatim>\<open>User\<close> of \<^verbatim>\<open>../models\<close>: \<^verbatim>\<open>findAll\<close>, \<^verbatim>\<open>findByPk\<close> and \<^verbatim>\<open>create\<close>
  on the model, \<^verbatim>\<open>update\<close>, \<^verbatim>\<open>destroy\<close> and \<^verbatim>\<open>reload\<close> on an instance. An instance is
  held as its row. The handlers obtain an instance from \<^verbatim>\<open>findByPk(req.params.id)\<close> only,
  so the later calls on it address the row under that identifier. What the model's
  setters store for a submitted value, and \<^verbatim>\<open>convert()\<close>, are the parameters \<open>setter\<close> and
  \<open>convert\<close>.
\<close>

definition User_findAll :: "world \<Rightarrow> (jsval + row list) \<times> world" where
  "User_findAll w =
     (case attempt False FindAll w of
        (Some e, w') \<Rightarrow> (Inl e, w')
      | (None, w') \<Rightarrow> (Inr (map snd (table w')), w'))"

definition User_findByPk :: "string \<Rightarrow> world \<Rightarrow> (jsval + row option) \<times> world" where
  "User_findByPk i w =
     (case attempt False (FindByPk i) w of
        (Some e, w') \<Rightarrow> (Inl e, w')
      | (None, w') \<Rightarrow> (Inr (map_of (table w') i), w'))"

definition User_create :: "deps \<Rightarrow> row \<Rightarrow> bool \<Rightarrow> world \<Rightarrow> (jsval + row) \<times> world" where
  "User_create D values t w =
     (case attempt t (Create values) w of
        (Some e, w') \<Rightarrow> (Inl e, w')
      | (None, w') \<Rightarrow>
          (let i = show_nat (next_id w');
               r = assign D [(''id'', VString i)] values
           in (Inr r, w'\<lparr>table := table w' @ [(i, r)], next_id := Suc (next_id w')\<rparr>)))"

definition User_update :: "deps \<Rightarrow> string \<Rightarrow> row \<Rightarrow> bool \<Rightarrow> world \<Rightarrow> (jsval + unit) \<times> world" where
  "User_update D i values t w =
     (case attempt t (Update i values) w of
        (Some e, w') \<Rightarrow> (Inl e, w')
      | (None, w') \<Rightarrow>
          (Inr (), w'\<lparr>table := map (\<lambda>(k, r). if k = i then (k, assign D r values) else (k, r)) (table w')\<rparr>))"

definition User_destroy :: "string \<Rightarrow> bool \<Rightarrow> world \<Rightarrow> (jsval + unit) \<times> world" where
  "User_destroy i t w =
     (case attempt t (Destroy i) w of
        (Some e, w') \<Rightarrow> (Inl e, w')
      | (None, w') \<Rightarrow> (Inr (), w'\<lparr>table := filter (\<lambda>(k, r). k \<noteq> i) (table w')\<rparr>))"

definition User_reload :: "string \<Rightarrow> world \<Rightarrow> (jsval + row) \<times> world" where
  \<comment> \<open>re-reads the row; an instance whose row is gone cannot be reloaded\<close>
  "User_reload i w =
     (case attempt False (Reload i) w of
        (Some e, w') \<Rightarrow> (Inl e, w')
      | (None, w') \<Rightarrow>
          (case map_of (table w') i of
             Some r \<Rightarrow> (Inr r, w')
           | None \<Rightarrow>
               (Inl (VRef (length (mem w'))),
                w'\<lparr>mem := mem w' @ [OError (Error_prototype_toString ''SequelizeInstanceError''
                                          ''Instance could not be reloaded because it does not exist anymore'')
                                        []]\<rparr>)))"

definition transaction :: "(bool \<Rightarrow> world \<Rightarrow> (jsval + 'a) \<times> world) \<Rightarrow> world \<Rightarrow> (jsval + 'a) \<times> world" where
  \<comment> \<open>Modelled from the spec: \<^verbatim>\<open>db.transaction\<close> of \<^verbatim>\<open>lib/db\<close> (sections 3 and 4.5);
      \<^verbatim>\<open>db.transaction(fn)\<close> runs \<open>fn\<close> with a
      transaction; it commits when \<open>fn\<close> returns, and when \<open>fn\<close> throws it restores the
      rows and throws the same value\<close>
  "transaction fn w =
     (case fn True (record_event Begin w) of
        (Inl e, w') \<Rightarrow> (Inl e, record_event Rollback (w'\<lparr>table := table w\<rparr>))
      | (Inr x, w') \<Rightarrow> (Inr x, record_event Commit w'))"

definition alphaNumeric :: "deps \<Rightarrow> nat \<Rightarrow> world \<Rightarrow> string \<times> world" where
  \<comment> \<open>\<^verbatim>\<open>faker.random.alphaNumeric(count)\<close>: \<open>count\<close> draws from the 36 digits and lower-case
      letters\<close>
  "alphaNumeric D count w =
     (map (\<lambda>k. ''0123456789abcdefghijklmnopqrstuvwxyz'' ! (rng D (drawn w + k) mod 36)) [0..<count],
      w\<lparr>drawn := drawn w + count\<rparr>)"

subsection \<open>Requests and responses\<close>

record request =
  params_id :: string
  body :: row

text \<open>
  A handler is an \<^verbatim>\<open>async\<close> function of the request. It ends by sending a response, a
  status with a document (\<^verbatim>\<open>res.send\<close> without \<^verbatim>\<open>res.status\<close> sends 200), or its
  promise is rejected: with the value a store call threw and no \<^verbatim>\<open>catch\<close> took
  (\<open>Thrown\<close>), or with the \<^verbatim>\<open>TypeError\<close> of a method call on \<^verbatim>\<open>null\<close>.
\<close>

datatype response = Response StatusCodes json

section \<open>src/controllers/userController.ts\<close>

definition getUserById :: "deps \<Rightarrow> string \<Rightarrow> world \<Rightarrow> (jsval + (json + row)) \<times> world" where
  \<comment> \<open>the result is an \<^verbatim>\<open>ErrorObject\<close> (left) or a \<^verbatim>\<open>User\<close> (right)\<close>
  "getUserById D i w =
     (case User_findByPk i w of
        (Inl e, w') \<Rightarrow> (Inl e, w')
      | (Inr None, w') \<Rightarrow> (Inr (Inl (resourceNotFound D)), w')
      | (Inr (Some u), w') \<Rightarrow> (Inr (Inr u), w'))"

definition index :: "deps \<Rightarrow> request \<Rightarrow> world \<Rightarrow> (exn + response) \<times> world" where
  "index D req w =
     (case User_findAll w of
        (Inl e, w') \<Rightarrow> (Inr (Response INTERNAL_SERVER_ERROR (docWithErrors (internalServerError D (mem w') e))), w')
      | (Inr users, w') \<Rightarrow> (Inr (Response OK (docWithData (JArr (map (convert D) users)))), w'))"

definition create_validations :: "validation list" where
  "create_validations =
     checkBodySchema
       [(''name'', shouldNotExist),
        (''screenName'', shouldExist @ shouldNotBeEmpty),
        (''email'', shouldExist @ shouldNotBeEmpty @ shouldBeEmail @ [Normalize]),
        (''password'', shouldExist @ shouldNotBeEmpty @ shouldBeStrongPassword)]"

definition create :: "deps \<Rightarrow> request \<Rightarrow> world \<Rightarrow> (exn + response) \<times> world" where
  "create D req w =
     (case runAllValidations D create_validations (body req) of
        Invalid errors \<Rightarrow>
          (Inr (Response UNPROCESSABLE_ENTITY (docWithErrors (validationError (errorFormatter errors)))), w)
      | Valid validatedUserData \<Rightarrow>
          (case transaction
                  (\<lambda>t w1. case alphaNumeric D 15 w1 of
                             (generated, w2) \<Rightarrow>
                               User_create D
                                 [(''name'', VString generated),
                                  (''screenName'', get validatedUserData ''screenName''),
                                  (''email'', get validatedUserData ''email''),
                                  (''password'', get validatedUserData ''password'')]
                                 t w2)
                  w of
             (Inl e, w') \<Rightarrow> (Inr (Response INTERNAL_SERVER_ERROR (docWithErrors (internalServerError D (mem w') e))), w')
           | (Inr user, w') \<Rightarrow> (Inr (Response CREATED (docWithData (convert D user))), w')))"

definition "show" :: "deps \<Rightarrow> request \<Rightarrow> world \<Rightarrow> (exn + response) \<times> world" where
  "show D req w =
     (case getUserById D (params_id req) w of
        (Inl e, w') \<Rightarrow> (Inr (Response INTERNAL_SERVER_ERROR (docWithErrors (internalServerError D (mem w') e))), w')
      | (Inr (Inl errorResponse), w') \<Rightarrow> (Inr (Response NOT_FOUND (docWithErrors errorResponse)), w')
      | (Inr (Inr user), w') \<Rightarrow> (Inr (Response OK (docWithData (convert D user))), w'))"

definition update_validations :: "validation list" where
  "update_validations =
     [Validation ''name'' True shouldNotBeEmpty,
      Validation ''screenName'' True shouldNotBeEmpty,
      Validation ''email'' True (shouldNotBeEmpty @ shouldBeEmail @ [Normalize]),
      Validation ''password'' True (shouldNotBeEmpty @ shouldBeStrongPassword)]"

definition update :: "deps \<Rightarrow> request \<Rightarrow> world \<Rightarrow> (exn + response) \<times> world" where
  "update D req w =
     (case getUserById D (params_id req) w of
        (Inl e, w') \<Rightarrow> (Inr (Response INTERNAL_SERVER_ERROR (docWithErrors (internalServerError D (mem w') e))), w')
      | (Inr (Inl errorResponse), w') \<Rightarrow> (Inr (Response NOT_FOUND (docWithErrors errorResponse)), w')
      | (Inr (Inr user), w') \<Rightarrow>
          (case runAllValidations D update_validations (body req) of
             Invalid errors \<Rightarrow>
               (Inr (Response UNPROCESSABLE_ENTITY (docWithErrors (validationError (errorFormatter errors)))), w')
           | Valid validatedUserData \<Rightarrow>
               (case transaction (\<lambda>t. User_update D (params_id req) validatedUserData t) w' of
                  (Inl e, w'') \<Rightarrow> (Inr (Response INTERNAL_SERVER_ERROR (docWithErrors (internalServerError D (mem w'') e))), w'')
                | (Inr u, w'') \<Rightarrow>
                    (case User_reload (params_id req) w'' of
                       (Inl e, w3) \<Rightarrow> (Inl (Thrown e), w3)
                     | (Inr reloaded, w3) \<Rightarrow>
                         (Inr (Response OK (docWithData (convert D reloaded))), w3)))))"

definition destroy :: "deps \<Rightarrow> request \<Rightarrow> world \<Rightarrow> (exn + response) \<times> world" where
  "destroy D req w =
     (case getUserById D (params_id req) w of
        (Inl e, w') \<Rightarrow> (Inr (Response INTERNAL_SERVER_ERROR (docWithErrors (internalServerError D (mem w') e))), w')
      | (Inr (Inl errorResponse), w') \<Rightarrow> (Inr (Response NOT_FOUND (docWithErrors errorResponse)), w')
      | (Inr (Inr user), w') \<Rightarrow>
          (case transaction (\<lambda>t. User_destroy (params_id req) t) w' of
             (Inl e, w'') \<Rightarrow> (Inr (Response INTERNAL_SERVER_ERROR (docWithErrors (internalServerError D (mem w'') e))), w'')
           | (Inr u, w'') \<Rightarrow> (Inr (Response OK (docWithData (convert D user))), w'')))"

section \<open>src/unnamed/part_000: the controller without transactions\<close>

text \<open>
  The second controller file has the same five handlers under the same names. It does not
  import \<^verbatim>\<open>db\<close> or \<^verbatim>\<open>internalServerError\<close>: no handler catches what the store throws,
  and the writes are issued without a transaction. Its definitions carry the suffix
  \<open>_part_000\<close>.
\<close>

definition getUserById_part_000 :: "deps \<Rightarrow> string \<Rightarrow> world \<Rightarrow> (jsval + (row option \<times> json option)) \<times> world" where
  \<comment> \<open>\<^verbatim>\<open>{ user, notFound }\<close>\<close>
  "getUserById_part_000 D i w =
     (case User_findByPk i w of
        (Inl e, w') \<Rightarrow> (Inl e, w')
      | (Inr user, w') \<Rightarrow>
          (Inr (user, if user = None then Some (resourceNotFound D) else None), w'))"

definition index_part_000 :: "deps \<Rightarrow> request \<Rightarrow> world \<Rightarrow> (exn + response) \<times> world" where
  "index_part_000 D req w =
     (case User_findAll w of
        (Inl e, w') \<Rightarrow> (Inl (Thrown e), w')
      | (Inr users, w') \<Rightarrow> (Inr (Response OK (docWithData (JArr (map (convert D) users)))), w'))"

definition create_part_000 :: "deps \<Rightarrow> request \<Rightarrow> world \<Rightarrow> (exn + response) \<times> world" where
  "create_part_000 D req w =
     (case runAllValidations D create_validations (body req) of
        Invalid errors \<Rightarrow>
          (Inr (Response UNPROCESSABLE_ENTITY (docWithErrors (validationError (errorFormatter errors)))), w)
      | Valid validatedUserData \<Rightarrow>
          (case alphaNumeric D 15 w of
             (generated, w1) \<Rightarrow>
               (case User_create D
                       [(''name'', VString generated),
                        (''screenName'', get validatedUserData ''screenName''),
                        (''email'', get validatedUserData ''email''),
                        (''password'', get validatedUserData ''password'')]
                       False w1 of
                  (Inl e, w') \<Rightarrow> (Inl (Thrown e), w')
                | (Inr user, w') \<Rightarrow> (Inr (Response CREATED (docWithData (convert D user))), w'))))"

definition show_part_000 :: "deps \<Rightarrow> request \<Rightarrow> world \<Rightarrow> (exn + response) \<times> world" where
  "show_part_000 D req w =
     (case getUserById_part_000 D (params_id req) w of
        (Inl e, w') \<Rightarrow> (Inl (Thrown e), w')
      | (Inr (user, Some notFound), w') \<Rightarrow> (Inr (Response NOT_FOUND (docWithErrors notFound)), w')
      | (Inr (None, None), w') \<Rightarrow>
          (Inl (TypeError ''Cannot read properties of null''), w')
      | (Inr (Some user, None), w') \<Rightarrow> (Inr (Response OK (docWithData (convert D user))), w'))"

definition update_part_000 :: "deps \<Rightarrow> request \<Rightarrow> world \<Rightarrow> (exn + response) \<times> world" where
  "update_part_000 D req w =
     (case getUserById_part_000 D (params_id req) w of
        (Inl e, w') \<Rightarrow> (Inl (Thrown e), w')
      | (Inr (user, Some notFound), w') \<Rightarrow> (Inr (Response NOT_FOUND (docWithErrors notFound)), w')
      | (Inr (None, None), w') \<Rightarrow>
          (case runAllValidations D update_validations (body req) of
             Invalid errors \<Rightarrow>
               (Inr (Response UNPROCESSABLE_ENTITY (docWithErrors (validationError (errorFormatter errors)))), w')
           | Valid validatedUserData \<Rightarrow>
               (Inl (TypeError ''Cannot read properties of null''), w'))
      | (Inr (Some user, None), w') \<Rightarrow>
          (case runAllValidations D update_validations (body req) of
             Invalid errors \<Rightarrow>
               (Inr (Response UNPROCESSABLE_ENTITY (docWithErrors (validationError (errorFormatter errors)))), w')
           | Valid validatedUserData \<Rightarrow>
               (case User_update D (params_id req) validatedUserData False w' of
                  (Inl e, w'') \<Rightarrow> (Inl (Thrown e), w'')
                | (Inr u, w'') \<Rightarrow>
                    (case User_reload (params_id req) w'' of
                       (Inl e, w3) \<Rightarrow> (Inl (Thrown e), w3)
                     | (Inr reloaded, w3) \<Rightarrow>
                         (Inr (Response OK (docWithData (convert D reloaded))), w3)))))"

definition destroy_part_000 :: "deps \<Rightarrow> request \<Rightarrow> world \<Rightarrow> (exn + response) \<times> world" where
  "destroy_part_000 D req w =
     (case getUserById_part_000 D (params_id req) w of
        (Inl e, w') \<Rightarrow> (Inl (Thrown e), w')
      | (Inr (user, Some notFound), w') \<Rightarrow> (Inr (Response NOT_FOUND (docWithErrors notFound)), w')
      | (Inr (None, None), w') \<Rightarrow>
          (Inl (TypeError ''Cannot read properties of null''), w')
      | (Inr (Some user, None), w') \<Rightarrow>
          (case User_destroy (params_id req) False w' of
             (Inl e, w'') \<Rightarrow> (Inl (Thrown e), w'')
           | (Inr u, w'') \<Rightarrow> (Inr (Response OK (docWithData (convert D user))), w'')))"

section \<open>Reading a trace\<close>

fun is_write :: "call \<Rightarrow> bool" where
  "is_write (Create r) = True"
| "is_write (Update i r) = True"
| "is_write (Destroy i) = True"
| "is_write c = False"

fun writes :: "event list \<Rightarrow> call list" where
  "writes [] = []"
| "writes (Call t c # es) = (if is_write c then c # writes es else writes es)"
| "writes (e # es) = writes es"

fun invocations :: "event list \<Rightarrow> nat" where
  \<comment> \<open>how many times \<^verbatim>\<open>db.transaction\<close> was entered\<close>
  "invocations [] = 0"
| "invocations (Begin # es) = Suc (invocations es)"
| "invocations (e # es) = invocations es"

fun unwrapped :: "bool \<Rightarrow> event list \<Rightarrow> call list" where
  \<comment> \<open>the writes issued outside a transaction: not between a \<open>Begin\<close> and its \<open>Commit\<close> or
      \<open>Rollback\<close>, or not passed the transaction; the flag says whether one is open\<close>
  "unwrapped opn [] = []"
| "unwrapped opn (Begin # es) = unwrapped True es"
| "unwrapped opn (Commit # es) = unwrapped False es"
| "unwrapped opn (Rollback # es) = unwrapped False es"
| "unwrapped opn (Call t c # es) =
     (if is_write c \<and> \<not> (opn \<and> t) then c # unwrapped opn es else unwrapped opn es)"

section \<open>A concrete instance, for evaluation\<close>

fun json_of :: "jsval \<Rightarrow> json" where
  "json_of (VString s) = JStr s"
| "json_of (VNumber negative m) = JNum (if negative then - uint m else uint m)"
| "json_of (VBool b) = JBool b"
| "json_of v = JNull"

definition example_deps :: deps where
  \<comment> \<open>one choice of the parameters: a setter that stores screen names behind an at sign, a
      public representation that hides the password, and the entry of
      \<^verbatim>\<open>new InternalServerError(error)\<close> for a fault\<close>
  "example_deps =
     \<lparr> isEmpty = (\<lambda>v. v = VString ''''),
       isEmail = (\<lambda>v. case v of VString s \<Rightarrow> CHR ''@'' \<in> set s | _ \<Rightarrow> False),
       isStrongPassword = (\<lambda>v. case v of VString s \<Rightarrow> 8 \<le> length s | _ \<Rightarrow> False),
       normalizeEmail = (\<lambda>v. v),
       errorMessage = (\<lambda>c. ''Invalid value''),
       blocking = (\<lambda>c. False),
       notFoundDetail = ''The requested resource could not be found.'',
       internalServerError = (\<lambda>h e. case serialized h e of Inr entry \<Rightarrow> entry | Inl x \<Rightarrow> JNull),
       setter = (\<lambda>k v. case v of VString s \<Rightarrow> if k = ''screenName'' then VString (CHR ''@'' # s) else v | _ \<Rightarrow> v),
       convert = (\<lambda>r. JObj (map (\<lambda>(k, v). (k, json_of v)) (filter (\<lambda>(k, v). k \<noteq> ''password'') r))),
       rng = (\<lambda>n. 7 * n + 3) \<rparr>"

definition example_world :: world where
  "example_world =
     \<lparr> table = [(''1'', [(''id'', VString ''1''), (''name'', VString ''k3x9q0a7m2d5f8z''),
                         (''screenName'', VString ''@ann''), (''email'', VString ''ann@example.org''),
                         (''password'', VString ''correct horse'')])],
       trace = [],
       pending = [],
       next_id = 2,
       drawn = 0,
       mem = [] \<rparr>"

definition next_call_succeeds :: "world \<Rightarrow> bool" where
  \<comment> \<open>at the coming call the store goes on, on the rows as they are now\<close>
  "next_call_succeeds w = (case pending w of [] \<Rightarrow> True | d # ds \<Rightarrow> d = Proceed)"

section \<open>Notions the statements use\<close>

text \<open>
  Names for the documents, the traces and the example requests that the theorems below
  speak about.
\<close>

definition InternalError_entry :: json where
  "InternalError_entry =
     JObj [(''status'', JStr ''Internal Server Error''),
           (''title'', JStr ''InternalServerError''),
           (''detail'', JStr '''')]"

definition boom_heap :: heap where
  \<comment> \<open>\<^verbatim>\<open>new Error("boom")\<close>\<close>
  "boom_heap = [new_Error ''boom'']"

definition circular_heap :: heap where
  \<comment> \<open>\<^verbatim>\<open>const o = {}; o.self = o\<close>\<close>
  "circular_heap = [OObject [(''self'', VRef 0)]]"

definition plain_heap :: heap where
  \<comment> \<open>\<^verbatim>\<open>{ a: 1 }\<close>\<close>
  "plain_heap = [OObject [(''a'', VNumber False 1)]]"

definition not_found_document :: "deps \<Rightarrow> json" where
  "not_found_document D = JObj [(''errors'', JArr [resourceNotFound D])]"

definition rename_request :: request where
  \<comment> \<open>\<^verbatim>\<open>PATCH /users/1\<close> with \<^verbatim>\<open>{ "screenName": "bob" }\<close>\<close>
  "rename_request = \<lparr>params_id = ''1'', body = [(''screenName'', VString ''bob'')]\<rparr>"


definition generated_name :: "deps \<Rightarrow> world \<Rightarrow> string" where
  \<comment> \<open>what \<^verbatim>\<open>faker.random.alphaNumeric(15)\<close> returns in a world: a function of the random
      source and of the draws made so far\<close>
  "generated_name D w = fst (alphaNumeric D 15 w)"

definition create_values :: "deps \<Rightarrow> world \<Rightarrow> row \<Rightarrow> row" where
  \<comment> \<open>the object literal handed to \<^verbatim>\<open>User.create\<close>\<close>
  "create_values D w validatedUserData =
     [(''name'', VString (generated_name D w)),
      (''screenName'', get validatedUserData ''screenName''),
      (''email'', get validatedUserData ''email''),
      (''password'', get validatedUserData ''password'')]"

definition signup_request :: request where
  "signup_request =
     \<lparr>params_id = '''',
      body = [(''screenName'', VString ''bob''), (''email'', VString ''bob@example.org''),
              (''password'', VString ''longer than eight'')]\<rparr>"

definition signup_values :: row where
  "signup_values =
     [(''name'', VString ''3ahov29gnu18fmt''), (''screenName'', VString ''bob''),
      (''email'', VString ''bob@example.org''), (''password'', VString ''longer than eight'')]"

definition signup_document :: json where
  "signup_document =
     JObj [(''data'', JObj [(''id'', JStr ''2''), (''name'', JStr ''3ahov29gnu18fmt''),
                            (''screenName'', JStr ''@bob''),
                            (''email'', JStr ''bob@example.org'')])]"

definition wrapped_once :: "event list \<Rightarrow> bool" where
  \<comment> \<open>no write outside a transaction, and as many transactions as writes: none or one\<close>
  "wrapped_once tr =
     (unwrapped False tr = [] \<and> invocations tr = length (writes tr) \<and> length (writes tr) \<le> 1)"

definition update_shapes :: "deps \<Rightarrow> request \<Rightarrow> event list set" where
  \<comment> \<open>the store calls an update request of the controller can make\<close>
  "update_shapes D req =
     (let i = params_id req; F = Call False (FindByPk i) in
      insert [F]
        (case runAllValidations D update_validations (body req) of
           Invalid fs \<Rightarrow> {}
         | Valid vs \<Rightarrow>
             {[F, Begin, Call True (Update i vs), Rollback],
              [F, Begin, Call True (Update i vs), Commit],
              [F, Begin, Call True (Update i vs), Commit, Call False (Reload i)]}))"

definition entry_422 :: "string \<Rightarrow> string \<Rightarrow> json" where
  "entry_422 f m =
     JObj [(''status'', JNum 422), (''title'', JStr ''Unprocessable Entity''),
           (''detail'', JStr m), (''source'', JObj [(''field'', JStr f)])]"

definition required_fields :: "string set" where
  "required_fields = {''screenName'', ''email'', ''password''}"

definition email_only_request :: request where
  "email_only_request = \<lparr>params_id = '''', body = [(''email'', VString ''bob@example.org'')]\<rparr>"

definition update_part_000_shapes :: "deps \<Rightarrow> request \<Rightarrow> event list set" where
  \<comment> \<open>the store calls an update request of \<^verbatim>\<open>part_000\<close> can make\<close>
  "update_part_000_shapes D req =
     (let i = params_id req; F = Call False (FindByPk i) in
      insert [F]
        (case runAllValidations D update_validations (body req) of
           Invalid fs \<Rightarrow> {}
         | Valid vs \<Rightarrow>
             {[F, Call False (Update i vs)],
              [F, Call False (Update i vs), Call False (Reload i)]}))"

definition value_done :: "mode \<Rightarrow> bool" where
  "value_done m = (m = Done \<or> m = Zero \<or> m = IntPart)"

definition starts_value :: "string \<Rightarrow> bool" where
  "starts_value s = (s \<noteq> [] \<and> \<not> is_ws (hd s) \<and> hd s \<noteq> CHR '']'')"

definition good :: "string \<Rightarrow> bool" where
  \<comment> \<open>a text the recogniser reads as one value, wherever a value may stand\<close>
  "good s = (starts_value s \<and> (\<forall>k r. \<exists>m. value_done m \<and> run Go k (s @ r) = run m k r))"

definition is_member :: "string \<Rightarrow> bool" where
  "is_member t = (\<exists>key s. t = QuoteJSONString key @ '':'' @ s \<and> good s)"



definition toString_returns :: "heap \<Rightarrow> jsval \<Rightarrow> bool" where
  \<comment> \<open>the call \<^verbatim>\<open>F.toString()\<close> returns a value\<close>
  "toString_returns h F = (case Error_toString h F of Inr r \<Rightarrow> True | Inl e \<Rightarrow> False)"

definition operations_return :: "heap \<Rightarrow> jsval \<Rightarrow> bool" where
  \<comment> \<open>the operations \<^verbatim>\<open>toJSON\<close> performs on the fault outside \<^verbatim>\<open>isSerializable\<close> return:
      the test \<^verbatim>\<open>F instanceof Error\<close> and, when it holds, the call \<^verbatim>\<open>F.toString()\<close>\<close>
  "operations_return h F =
     (case instanceof_Error h F of
        Inl e \<Rightarrow> False
      | Inr b \<Rightarrow> if b then toString_returns h F else True)"

definition arriving :: "world \<Rightarrow> (string \<times> row) list" where
  \<comment> \<open>the rows as the coming store call finds them\<close>
  "arriving w = (case pending w of Others rows # ds \<Rightarrow> rows | _ \<Rightarrow> table w)"

definition busy_world :: world where
  \<comment> \<open>the example world with a second client: its change of the e-mail address of user 1 is
      committed after the first two store calls of the request and before the third\<close>
  "busy_world =
     example_world
       \<lparr>pending :=
          [Proceed, Proceed,
           Others [(''1'', [(''id'', VString ''1''), (''name'', VString ''k3x9q0a7m2d5f8z''),
                            (''screenName'', VString ''@bob''), (''email'', VString ''ann@example.net''),
                            (''password'', VString ''correct horse'')])]]\<rparr>"

definition reloaded_document :: json where
  "reloaded_document =
     JObj [(''data'', JObj [(''id'', JStr ''1''), (''name'', JStr ''k3x9q0a7m2d5f8z''),
                            (''screenName'', JStr ''@bob''),
                            (''email'', JStr ''ann@example.net'')])]"

definition rename_values :: row where
  \<comment> \<open>what \<^verbatim>\<open>matchedData\<close> returns for the example request\<close>
  "rename_values =
     [(''name'', VUndefined), (''screenName'', VString ''bob''),
      (''email'', VUndefined), (''password'', VUndefined)]"


section \<open>Properties of InternalServerError\<close>

lemma isSerializable_stringify:
  "isSerializable h v \<Longrightarrow> \<exists>r. JSON_stringify h v = Inr r"
  by (auto simp: isSerializable_def split: sum.splits)

text \<open>
  Where \<^verbatim>\<open>toJSON\<close> returns, the object it returns is always the same: the branch on the
  fault only assigns \<^verbatim>\<open>this.detail\<close>, which the returned object does not read.
\<close>

lemma toJSON_entry:
  assumes "toJSON h (new_InternalServerError F) = Inr (d, t)"
  shows "d = InternalError_entry" "message t = ''''" "statusCode t = INTERNAL_SERVER_ERROR"
    "name t = ''InternalServerError''"
  using assms
  by (auto simp: toJSON_def new_InternalServerError_def InternalError_entry_def
      split: if_splits sum.splits bool.splits)

text \<open>
  It returns for every fault on which \<^verbatim>\<open>instanceof\<close> returns and, when the fault is an
  error, \<^verbatim>\<open>toString()\<close> returns.
\<close>

lemma toJSON_returns:
  assumes "operations_return h F"
  shows "\<exists>t. toJSON h (new_InternalServerError F) = Inr (InternalError_entry, t)"
proof -
  from assms obtain b where b: "instanceof_Error h F = Inr b"
    by (cases "instanceof_Error h F") (simp_all add: operations_return_def)
  show ?thesis
  proof (cases b)
    case True
    with assms b obtain r where "Error_toString h F = Inr r"
      by (auto simp: operations_return_def toString_returns_def split: sum.splits)
    with True b show ?thesis
      by (simp add: toJSON_def new_InternalServerError_def InternalError_entry_def)
  next
    case notErr: False
    show ?thesis
    proof (cases "isSerializable h F")
      case True
      then obtain r where "JSON_stringify h F = Inr r"
        using isSerializable_stringify by blast
      with notErr b True show ?thesis
        by (simp add: toJSON_def new_InternalServerError_def InternalError_entry_def)
    next
      case False
      with notErr b show ?thesis
        by (simp add: toJSON_def new_InternalServerError_def InternalError_entry_def)
    qed
  qed
qed


subsection \<open>The kinds of fault, evaluated\<close>

lemma stringify_circular:
  "JSON_stringify circular_heap (VRef 0) = Inl (TypeError ''Converting circular structure to JSON'')"
  by (simp add: circular_heap_def JSON_stringify_def SerializeJSONProperty.simps keyed_def
      apply_toJSON_def own_property_def trapped_def)

lemma isSerializable_circular: "\<not> isSerializable circular_heap (VRef 0)"
  by (simp add: isSerializable_def stringify_circular)

lemma isSerializable_BigInt: "\<not> isSerializable h (VBigInt i)"
  by (simp add: isSerializable_def JSON_stringify_def SerializeJSONProperty.simps
      apply_toJSON_def own_property_def trapped_def)

lemma parse_undefined: "JSON_parse None = Inl (SyntaxError ''Unexpected token in JSON'')"
  by (simp add: JSON_parse_def ToString_opt_def start_value_def is_ws_def is_digit_def)

lemma isSerializable_undefined: "\<not> isSerializable h VUndefined"
  by (simp add: isSerializable_def JSON_stringify_def SerializeJSONProperty.simps parse_undefined
      apply_toJSON_def own_property_def trapped_def)

lemma stringify_plain:
  "JSON_stringify plain_heap (VRef 0) = Inr (Some ([CHR ''{'', CHR 0x22, CHR ''a'', CHR 0x22] @ '':1}''))"
  by (simp add: plain_heap_def JSON_stringify_def SerializeJSONProperty.simps keyed_def
      member_text_def QuoteJSONString_def QuoteJSONChar_def Number_toString_def
      show_nat.simps hexdigit_def apply_toJSON_def own_property_def trapped_def)

lemma isSerializable_plain: "isSerializable plain_heap (VRef 0)"
  by (simp add: isSerializable_def stringify_plain JSON_parse_def ToString_opt_def
      start_value_def after_value_def close_ctx_def is_ws_def is_digit_def is_exp_def
      complete_def)

lemma error_new [simp]: "error (new_InternalServerError e) = e"
  by (simp add: new_InternalServerError_def)

lemma not_Error_plain: "instanceof_Error plain_heap (VRef 0) = Inr False"
  by (simp add: instanceof_Error_def plain_heap_def)

lemma not_Error_circular: "instanceof_Error circular_heap (VRef 0) = Inr False"
  by (simp add: instanceof_Error_def circular_heap_def)

lemma toJSON_plain:
  "toJSON plain_heap (new_InternalServerError (VRef 0)) =
   Inr (InternalError_entry,
        (new_InternalServerError (VRef 0))
          \<lparr>detail := VString ([CHR ''{'', CHR 0x22, CHR ''a'', CHR 0x22] @ '':1}'')\<rparr>)"
  by (simp add: toJSON_def isSerializable_plain stringify_plain not_Error_plain ToValue_def)
     (simp add: new_InternalServerError_def InternalError_entry_def)

lemma toJSON_circular:
  "toJSON circular_heap (new_InternalServerError (VRef 0)) =
   Inr (InternalError_entry, new_InternalServerError (VRef 0))"
  by (simp add: toJSON_def isSerializable_circular not_Error_circular)
     (simp add: new_InternalServerError_def InternalError_entry_def)

lemma is_Error_boom: "instanceof_Error boom_heap (VRef 0) = Inr True"
  by (simp add: instanceof_Error_def boom_heap_def new_Error_def)

lemma toString_boom: "Error_toString boom_heap (VRef 0) = Inr (VString ''Error: boom'')"
  by (simp add: Error_toString_def own_property_def boom_heap_def new_Error_def
      Error_prototype_toString_def)

lemma toJSON_boom:
  "toJSON boom_heap (new_InternalServerError (VRef 0)) =
   Inr (InternalError_entry, (new_InternalServerError (VRef 0))\<lparr>detail := VString ''Error: boom''\<rparr>)"
  by (simp add: toJSON_def toString_boom is_Error_boom)
     (simp add: new_InternalServerError_def InternalError_entry_def)



text \<open>
  C1. The claim: the detail string of the entry serialized for
  \<^verbatim>\<open>InternalServerError(F)\<close> is the string form of \<open>F\<close> when \<open>F\<close> is an error, else the
  JSON text of \<open>F\<close> when serialize-then-parse succeeds, else the generic message.
  \<^verbatim>\<open>toJSON\<close> computes exactly that string and stores it in \<^verbatim>\<open>this.detail\<close>, then returns
  \<^verbatim>\<open>detail: this.message\<close>. At \<^verbatim>\<open>new Error("boom")\<close> the computed detail is
  \<^verbatim>\<open>Error: boom\<close> and the detail of the returned entry is the empty string.
\<close>

theorem toJSON_detail_is_message_not_detail:
  "toJSON boom_heap (new_InternalServerError (VRef 0)) =
     Inr (JObj [(''status'', JStr ''Internal Server Error''),
                (''title'', JStr ''InternalServerError''),
                (''detail'', JStr '''')],
          (new_InternalServerError (VRef 0))\<lparr>detail := VString ''Error: boom''\<rparr>)
   \<and> JStr '''' \<noteq> JStr ''Error: boom''"
  by (simp add: toJSON_def toString_boom is_Error_boom)
     (simp add: new_InternalServerError_def)

text \<open>
  C2, as stated: the entry's status is the number 500 and its title is
  \<^verbatim>\<open>Internal Server Error\<close>. It fails at the fault \<^verbatim>\<open>null\<close> (and at every other one).
\<close>

theorem toJSON_status_500_counterexample:
  "\<not> (\<exists>d t. toJSON [] (new_InternalServerError VNull) = Inr (d, t)
          \<and> field ''status'' d = Some (JNum 500)
          \<and> field ''title'' d = Some (JStr ''Internal Server Error''))"
proof
  assume "\<exists>d t. toJSON [] (new_InternalServerError VNull) = Inr (d, t)
          \<and> field ''status'' d = Some (JNum 500)
          \<and> field ''title'' d = Some (JStr ''Internal Server Error'')"
  then obtain d t where r: "toJSON [] (new_InternalServerError VNull) = Inr (d, t)"
    and s: "field ''status'' d = Some (JNum 500)" by blast
  from toJSON_entry(1)[OF r] s show False
    by (simp add: InternalError_entry_def)
qed

text \<open>
  C2, amended: for every fault the entry's status is the string
  \<^verbatim>\<open>Internal Server Error\<close>, the reason phrase of the instance's numeric status code 500,
  and its title is the instance's name, \<^verbatim>\<open>InternalServerError\<close>. There is such an entry
  for every fault on which \<^verbatim>\<open>instanceof\<close> and \<^verbatim>\<open>toString()\<close> return, and every entry
  \<^verbatim>\<open>toJSON\<close> returns is such an entry, whatever the heap and the fault.
\<close>

theorem toJSON_status_title:
  "(operations_return h F \<longrightarrow>
      (\<exists>d t. toJSON h (new_InternalServerError F) = Inr (d, t)
         \<and> field ''status'' d = Some (JStr (getReasonPhrase (statusCode t)))
         \<and> getReasonPhrase (statusCode t) = ''Internal Server Error''
         \<and> status_number (statusCode t) = 500
         \<and> field ''title'' d = Some (JStr ''InternalServerError'')))
   \<and> (\<forall>d t. toJSON h (new_InternalServerError F) = Inr (d, t) \<longrightarrow>
           field ''status'' d = Some (JStr (getReasonPhrase (statusCode t)))
         \<and> getReasonPhrase (statusCode t) = ''Internal Server Error''
         \<and> status_number (statusCode t) = 500
         \<and> field ''title'' d = Some (JStr ''InternalServerError''))"
proof -
  have each: "field ''status'' d = Some (JStr (getReasonPhrase (statusCode t)))
         \<and> getReasonPhrase (statusCode t) = ''Internal Server Error''
         \<and> status_number (statusCode t) = 500
         \<and> field ''title'' d = Some (JStr ''InternalServerError'')"
    if "toJSON h (new_InternalServerError F) = Inr (d, t)" for d t
    using toJSON_entry(1,3)[OF that] by (simp add: InternalError_entry_def)
  have "\<exists>d t. toJSON h (new_InternalServerError F) = Inr (d, t)" if "operations_return h F"
    using toJSON_returns[OF that] by blast
  with each show ?thesis by blast
qed

lemma operations_return_null: "operations_return [] VNull"
  by (simp add: operations_return_def instanceof_Error_def)

theorem toJSON_status_title_witness:
  "operations_return [] VNull
   \<and> (\<exists>d t. toJSON [] (new_InternalServerError VNull) = Inr (d, t)
         \<and> field ''status'' d = Some (JStr ''Internal Server Error'')
         \<and> status_number (statusCode t) = 500
         \<and> field ''title'' d = Some (JStr ''InternalServerError''))"
  using toJSON_status_title[of "[]" VNull] operations_return_null
  by auto



lemma operations_return_circular: "operations_return circular_heap (VRef 0)"
  by (simp add: operations_return_def not_Error_circular)

lemma operations_return_boom: "operations_return boom_heap (VRef 0)"
  by (simp add: operations_return_def is_Error_boom toString_returns_def toString_boom)


text \<open>
  C9. For any two faults the entries serialized for them have the same detail: it is
  \<^verbatim>\<open>this.message\<close>, the empty string the constructor leaves, whatever \<^verbatim>\<open>this.detail\<close>
  was computed to be; the two entries are equal as a whole, so nothing of the fault is
  in them. There are such entries for any two faults on which \<^verbatim>\<open>instanceof\<close> and
  \<^verbatim>\<open>toString()\<close> return, and any two entries \<^verbatim>\<open>toJSON\<close> returns are so.
\<close>

theorem toJSON_detail_independent_of_fault:
  "(operations_return h1 F1 \<and> operations_return h2 F2 \<longrightarrow>
      (\<exists>d1 t1 d2 t2.
          toJSON h1 (new_InternalServerError F1) = Inr (d1, t1)
        \<and> toJSON h2 (new_InternalServerError F2) = Inr (d2, t2)
        \<and> field ''detail'' d1 = field ''detail'' d2
        \<and> field ''detail'' d1 = Some (JStr (message t1))
        \<and> message t1 = ''''
        \<and> d1 = d2))
   \<and> (\<forall>d1 t1 d2 t2.
          toJSON h1 (new_InternalServerError F1) = Inr (d1, t1)
        \<and> toJSON h2 (new_InternalServerError F2) = Inr (d2, t2)
        \<longrightarrow> field ''detail'' d1 = field ''detail'' d2
          \<and> field ''detail'' d1 = Some (JStr (message t1))
          \<and> message t1 = ''''
          \<and> d1 = d2)"
proof -
  have each: "field ''detail'' d1 = field ''detail'' d2
          \<and> field ''detail'' d1 = Some (JStr (message t1))
          \<and> message t1 = ''''
          \<and> d1 = d2"
    if "toJSON h1 (new_InternalServerError F1) = Inr (d1, t1)"
      and "toJSON h2 (new_InternalServerError F2) = Inr (d2, t2)" for d1 t1 d2 t2
    using toJSON_entry(1,2)[OF that(1)] toJSON_entry(1)[OF that(2)]
    by (simp add: InternalError_entry_def)
  have "\<exists>d1 t1 d2 t2. toJSON h1 (new_InternalServerError F1) = Inr (d1, t1)
        \<and> toJSON h2 (new_InternalServerError F2) = Inr (d2, t2)"
    if "operations_return h1 F1" "operations_return h2 F2"
    using toJSON_returns[OF that(1)] toJSON_returns[OF that(2)] by blast
  with each show ?thesis by blast
qed

text \<open>
  \<^verbatim>\<open>new Error("boom")\<close> and a circular object: the computed details differ, the entries
  do not.
\<close>

theorem toJSON_detail_independent_of_fault_witness:
  "operations_return boom_heap (VRef 0) \<and> operations_return circular_heap (VRef 0)
   \<and> toJSON boom_heap (new_InternalServerError (VRef 0))
     = Inr (InternalError_entry, (new_InternalServerError (VRef 0))\<lparr>detail := VString ''Error: boom''\<rparr>)
   \<and> toJSON circular_heap (new_InternalServerError (VRef 0))
     = Inr (InternalError_entry, new_InternalServerError (VRef 0))
   \<and> field ''detail'' InternalError_entry = Some (JStr '''')"
  using toJSON_detail_independent_of_fault[of boom_heap "VRef 0" circular_heap "VRef 0"]
    operations_return_boom operations_return_circular toJSON_boom toJSON_circular
  by simp
section \<open>The recogniser accepts what JSON.stringify writes\<close>

text \<open>
  Every string \<^verbatim>\<open>JSON.stringify\<close> returns is read by the recogniser as one JSON value.
  So \<^verbatim>\<open>isSerializable\<close> is true exactly when \<^verbatim>\<open>JSON.stringify\<close> returns a string: it
  is false when the serialization throws, and when it returns \<^verbatim>\<open>undefined\<close>, which
  \<^verbatim>\<open>JSON.parse\<close> rejects.
\<close>

lemma run_append: "run m k (xs @ ys) = (case run m k xs of None \<Rightarrow> None | Some (m', k') \<Rightarrow> run m' k' ys)"
  by (induction xs arbitrary: m k) (auto split: option.splits)

lemma run_null: "run Go k (''null'' @ r) = run Done k r"
  by (simp add: start_value_def is_ws_def is_digit_def)

lemma run_true: "run Go k (''true'' @ r) = run Done k r"
  by (simp add: start_value_def is_ws_def is_digit_def)

lemma run_false: "run Go k (''false'' @ r) = run Done k r"
  by (simp add: start_value_def is_ws_def is_digit_def)

lemma hexdigit_is_hex: "d < 16 \<Longrightarrow> is_hex (hexdigit d)"
proof -
  assume "d < 16"
  then have "hexdigit d \<in> set ''0123456789abcdef''"
    unfolding hexdigit_def by (intro nth_mem) simp
  then show ?thesis
    by (auto simp: is_hex_def)
qed

lemma hexdigit_low: "d < 10 \<Longrightarrow> hexdigit d = ''0123456789'' ! d"
proof -
  assume "d < 10"
  then have "(''0123456789'' @ ''abcdef'') ! d = ''0123456789'' ! d"
    by (subst nth_append) simp
  then show ?thesis by (simp add: hexdigit_def)
qed

lemma hexdigit_is_digit: "d < 10 \<Longrightarrow> is_digit (hexdigit d)"
proof -
  assume d: "d < 10"
  then have "''0123456789'' ! d \<in> set ''0123456789''"
    by (intro nth_mem) simp
  with hexdigit_low[OF d] show ?thesis
    by (simp add: is_digit_def)
qed

lemma hexdigit_nonzero:
  assumes "0 < d" and "d < 10"
  shows "hexdigit d \<noteq> CHR ''0''"
proof
  assume "hexdigit d = CHR ''0''"
  then have e: "''0123456789'' ! d = CHR ''0''"
    using hexdigit_low[OF assms(2)] by simp
  have "distinct ''0123456789''" by simp
  from nth_eq_iff_index_eq[OF this, of d 0] e assms(2) have "d = 0"
    by simp
  with assms(1) show False by simp
qed

lemma run_quoted_char: "run (Str b) k (QuoteJSONChar c @ r) = run (Str b) k r"
proof -
  have h1: "is_hex (hexdigit (of_char c div 16))" 
    by (rule hexdigit_is_hex) (simp add: div_less_iff_less_mult)
  have h2: "is_hex (hexdigit (of_char c mod 16))"
    by (rule hexdigit_is_hex) simp
  show ?thesis
    using h1 h2 by (simp add: QuoteJSONChar_def is_hex_def)
qed

lemma run_quoted_chars: "run (Str b) k (concat (map QuoteJSONChar s) @ r) = run (Str b) k r"
  by (induction s) (simp_all add: run_quoted_char)

lemma run_string_from:
  assumes "step m k (CHR 0x22) = Some (Str b, k)"
  shows "run m k (QuoteJSONString s @ r) = run (if b then Colon else Done) k r"
  using assms by (simp add: QuoteJSONString_def run_quoted_chars)


lemma show_nat_digits: "c \<in> set (show_nat n) \<Longrightarrow> is_digit c"
proof (induction n arbitrary: c rule: show_nat.induct)
  case (1 n)
  show ?case
  proof (cases "n < 10")
    case True
    with "1.prems" show ?thesis
      by (simp add: show_nat.simps[of n] hexdigit_is_digit)
  next
    case False
    with "1.prems" "1.IH" show ?thesis
      by (auto simp: show_nat.simps[of n] hexdigit_is_digit)
  qed
qed

lemma show_nat_first:
  "0 < n \<Longrightarrow> \<exists>d ds. show_nat n = d # ds \<and> is_digit d \<and> d \<noteq> CHR ''0''"
proof (induction n rule: show_nat.induct)
  case (1 n)
  show ?case
  proof (cases "n < 10")
    case True
    with "1.prems" show ?thesis
      by (simp add: show_nat.simps[of n] hexdigit_is_digit hexdigit_nonzero)
  next
    case False
    then have "0 < n div 10" by simp
    with "1.IH" False obtain d ds where "show_nat (n div 10) = d # ds" "is_digit d" "d \<noteq> CHR ''0''"
      by blast
    with False show ?thesis
      by (simp add: show_nat.simps[of n])
  qed
qed

lemma run_digits: "\<forall>c \<in> set ds. is_digit c \<Longrightarrow> run IntPart k (ds @ r) = run IntPart k r"
  by (induction ds) simp_all

lemma start_nonzero_digit:
  assumes "is_digit d" "d \<noteq> CHR ''0''"
  shows "step Go k d = Some (IntPart, k)" "step Minus k d = Some (IntPart, k)"
  using assms by (auto simp: is_digit_def start_value_def is_ws_def)

lemma run_nat:
  "\<exists>m. value_done m \<and> run Go k (show_nat n @ r) = run m k r
       \<and> run Minus k (show_nat n @ r) = run m k r"
proof (cases "n = 0")
  case True
  have "run Go k (show_nat 0 @ r) = run Zero k r" "run Minus k (show_nat 0 @ r) = run Zero k r"
    by (simp_all add: show_nat.simps[of 0] hexdigit_def start_value_def is_ws_def is_digit_def)
  with True show ?thesis by (auto simp: value_done_def)
next
  case False
  then obtain d ds where s: "show_nat n = d # ds" and d: "is_digit d" "d \<noteq> CHR ''0''"
    using show_nat_first[of n] by auto
  have "\<forall>c \<in> set ds. is_digit c"
    using show_nat_digits[of _ n] s by simp
  then have "run IntPart k (ds @ r) = run IntPart k r" by (rule run_digits)
  with s start_nonzero_digit[OF d, of k] show ?thesis
    by (auto simp: value_done_def)
qed

lemma run_number:
  "\<exists>m. value_done m \<and> run Go k (Number_toString b i @ r) = run m k r"
proof (cases "b \<and> i \<noteq> 0")
  case True
  have "step Go k (CHR ''-'') = Some (Minus, k)"
    by (simp add: start_value_def is_ws_def)
  with True run_nat[of k "unat i" r] show ?thesis
    by (auto simp: Number_toString_def)
next
  case False
  with run_nat[of k "unat i" r] show ?thesis
    by (auto simp: Number_toString_def)
qed

lemma show_nat_nonempty: "show_nat n \<noteq> []"
  by (cases "n < 10") (simp_all add: show_nat.simps[of n])

lemma starts_value_show_nat: "starts_value (show_nat n)"
proof -
  obtain d ds where s: "show_nat n = d # ds"
    using show_nat_nonempty[of n] by (cases "show_nat n") auto
  then have "is_digit d" using show_nat_digits[of d n] by simp
  with s show ?thesis by (auto simp: starts_value_def is_digit_def is_ws_def)
qed

lemma good_number: "good (Number_toString b i)"
  using run_number starts_value_show_nat[of "unat i"]
  by (auto simp: good_def starts_value_def Number_toString_def is_ws_def)

lemma good_literals: "good ''null''" "good ''true''" "good ''false''"
  using run_null run_true run_false
  by (auto simp: good_def starts_value_def is_ws_def value_done_def)

lemma good_string: "good (QuoteJSONString s)"
proof -
  have "step Go k (CHR 0x22) = Some (Str False, k)" for k
    by (simp add: start_value_def is_ws_def)
  from run_string_from[OF this] show ?thesis
    by (auto simp: good_def starts_value_def is_ws_def value_done_def QuoteJSONString_def)
qed


lemma after_value_done:
  assumes "value_done m" and "c = CHR '','' \<or> c = CHR '']'' \<or> c = CHR ''}''"
  shows "step m k c = after_value k c"
  using assms by (auto simp: value_done_def is_digit_def is_exp_def)

lemma run_from_ArrFirst:
  assumes "starts_value s"
  shows "run ArrFirst k (s @ r) = run Go k (s @ r)"
  using assms by (cases s) (simp_all add: starts_value_def)

lemma starts_value_join:
  assumes "es \<noteq> []" and "starts_value (hd es)"
  shows "starts_value (join sep es @ r)"
  using assms by (induction sep es rule: join.induct) (auto simp: starts_value_def)

lemma run_elements:
  assumes "\<forall>e \<in> set es. good e" and "es \<noteq> []"
  shows "run Go (InArray # k) (join '','' es @ CHR '']'' # r) = run Done k r"
  using assms
proof (induction "'',''" es rule: join.induct)
  case 1
  then show ?case by simp
next
  case (2 e)
  then have "good e" by simp
  then obtain m where m: "value_done m"
    "run Go (InArray # k) (e @ CHR '']'' # r) = run m (InArray # k) (CHR '']'' # r)"
    unfolding good_def by blast
  from after_value_done[OF m(1), of "CHR '']''" "InArray # k"] m(2) show ?case
    by (simp add: after_value_def close_ctx_def is_ws_def)
next
  case (3 e t ts)
  then have "good e" by simp
  then obtain m where m: "value_done m"
    "run Go (InArray # k) (e @ CHR '','' # join '','' (t # ts) @ CHR '']'' # r)
       = run m (InArray # k) (CHR '','' # join '','' (t # ts) @ CHR '']'' # r)"
    unfolding good_def by blast
  from 3 have "run Go (InArray # k) (join '','' (t # ts) @ CHR '']'' # r) = run Done k r"
    by simp
  with after_value_done[OF m(1), of "CHR '',''" "InArray # k"] m(2) show ?case
    by (simp add: after_value_def is_ws_def)
qed

lemma good_array:
  assumes "\<forall>e \<in> set es. good e"
  shows "good (''['' @ join '','' es @ '']'')"
proof -
  have "run Go k ((''['' @ join '','' es @ '']'') @ r) = run Done k r" for k r
  proof (cases "es = []")
    case True
    then show ?thesis
      by (simp add: start_value_def is_ws_def close_ctx_def)
  next
    case False
    with assms have "starts_value (hd es)" by (simp add: good_def)
    with False have "starts_value (join '','' es @ CHR '']'' # r)"
      by (rule starts_value_join)
    then have "run ArrFirst (InArray # k) (join '','' es @ CHR '']'' # r)
        = run Go (InArray # k) (join '','' es @ CHR '']'' # r)"
      using run_from_ArrFirst[of "join '','' es @ CHR '']'' # r" "InArray # k" "[]"] by simp
    with run_elements[OF assms False, of k r] show ?thesis
      by (simp add: start_value_def is_ws_def)
  qed
  then show ?thesis
    by (auto simp: good_def starts_value_def is_ws_def value_done_def)
qed

lemma run_member:
  assumes "is_member t" and "step m0 k (CHR 0x22) = Some (Str True, k)"
  shows "\<exists>m. value_done m \<and> run m0 k (t @ r) = run m k r"
proof -
  from assms(1) obtain key s where t: "t = QuoteJSONString key @ '':'' @ s" and s: "good s"
    unfolding is_member_def by blast
  from s obtain m where m: "value_done m" "run Go k (s @ r) = run m k r"
    unfolding good_def by blast
  have "run m0 k (t @ r) = run Colon k (CHR '':'' # s @ r)"
    using run_string_from[OF assms(2), of key "CHR '':'' # s @ r"] t by simp
  also have "\<dots> = run Go k (s @ r)" by (simp add: is_ws_def)
  finally show ?thesis using m by auto
qed

lemma run_members:
  assumes "\<forall>t \<in> set ms. is_member t" and "ms \<noteq> []"
    and "step m0 (InObject # k) (CHR 0x22) = Some (Str True, InObject # k)"
  shows "run m0 (InObject # k) (join '','' ms @ CHR ''}'' # r) = run Done k r"
  using assms
proof (induction "'',''" ms arbitrary: m0 rule: join.induct)
  case 1
  then show ?case by simp
next
  case (2 t)
  then have "is_member t" by simp
  from run_member[OF this "2.prems"(3), of "CHR ''}'' # r"] obtain m where m: "value_done m"
    "run m0 (InObject # k) (t @ CHR ''}'' # r) = run m (InObject # k) (CHR ''}'' # r)"
    by blast
  from after_value_done[OF m(1), of "CHR ''}''" "InObject # k"] m(2) show ?case
    by (simp add: after_value_def close_ctx_def is_ws_def)
next
  case (3 t u us)
  then have "is_member t" by simp
  from run_member[OF this "3.prems"(3), of "CHR '','' # join '','' (u # us) @ CHR ''}'' # r"]
  obtain m where m: "value_done m"
    "run m0 (InObject # k) (t @ CHR '','' # join '','' (u # us) @ CHR ''}'' # r)
       = run m (InObject # k) (CHR '','' # join '','' (u # us) @ CHR ''}'' # r)"
    by blast
  have key: "step Key (InObject # k) (CHR 0x22) = Some (Str True, InObject # k)"
    by (simp add: is_ws_def)
  from 3 key have "run Key (InObject # k) (join '','' (u # us) @ CHR ''}'' # r) = run Done k r"
    by simp
  with after_value_done[OF m(1), of "CHR '',''" "InObject # k"] m(2) show ?case
    by (simp add: after_value_def is_ws_def)
qed

lemma good_object:
  assumes "\<forall>t \<in> set ms. is_member t"
  shows "good (''{'' @ join '','' ms @ ''}'')"
proof -
  have "run Go k ((''{'' @ join '','' ms @ ''}'') @ r) = run Done k r" for k r
  proof (cases "ms = []")
    case True
    then show ?thesis
      by (simp add: start_value_def is_ws_def close_ctx_def)
  next
    case False
    have "step ObjFirst (InObject # k) (CHR 0x22) = Some (Str True, InObject # k)"
      by (simp add: is_ws_def)
    from run_members[OF assms False this, of r] show ?thesis
      by (simp add: start_value_def is_ws_def)
  qed
  then show ?thesis
    by (auto simp: good_def starts_value_def is_ws_def value_done_def)
qed

lemma sequence_Inr: "sequence xs = Inr rs \<Longrightarrow> xs = map Inr rs"
  by (induction xs arbitrary: rs rule: sequence.induct) (auto split: sum.splits)

lemma sequence_results:
  assumes "sequence (map f xs) = Inr rs" and "r \<in> set rs"
  shows "\<exists>x \<in> set xs. f x = Inr r"
proof -
  from sequence_Inr[OF assms(1)] have "map f xs = map Inr rs" .
  then have "Inr r \<in> set (map f xs)" using assms(2) by simp
  then show ?thesis by auto
qed


lemma members_good:
  assumes "sequence (map (\<lambda>p. keyed (fst p) (SerializeJSONProperty h stk (snd p))) ps) = Inr rs"
    and "\<And>p s. p \<in> set ps \<Longrightarrow> SerializeJSONProperty h stk (snd p) = Inr (Some s) \<Longrightarrow> good s"
  shows "\<forall>t \<in> set (concat (map member_text rs)). is_member t"
proof
  fix t assume "t \<in> set (concat (map member_text rs))"
  then obtain r where r: "r \<in> set rs" and t: "t \<in> set (member_text r)" by auto
  from sequence_results[OF assms(1) r] obtain p where p: "p \<in> set ps"
    and k: "keyed (fst p) (SerializeJSONProperty h stk (snd p)) = Inr r" by blast
  from t obtain s where s: "snd r = Some s" and t': "t = QuoteJSONString (fst r) @ '':'' @ s"
    by (cases "snd r") (simp_all add: member_text_def)
  from k s have "SerializeJSONProperty h stk (snd p) = Inr (Some s)"
    by (auto simp: keyed_def split: sum.splits)
  with assms(2)[OF p] have "good s" by simp
  with t' show "is_member t" unfolding is_member_def by blast
qed

lemma elements_good:
  assumes "sequence (map (\<lambda>x. SerializeJSONProperty h stk x) vs) = Inr rs"
    and "\<And>x s. x \<in> set vs \<Longrightarrow> SerializeJSONProperty h stk x = Inr (Some s) \<Longrightarrow> good s"
  shows "\<forall>e \<in> set (map element_text rs). good e"
proof
  fix e assume "e \<in> set (map element_text rs)"
  then obtain r where r: "r \<in> set rs" and e: "e = element_text r" by auto
  from sequence_results[OF assms(1) r] obtain x where x: "x \<in> set vs"
    and k: "SerializeJSONProperty h stk x = Inr r" by blast
  show "good e"
  proof (cases r)
    case None
    with e show ?thesis by (simp add: element_text_def good_literals)
  next
    case (Some s)
    with k assms(2)[OF x] e show ?thesis by (simp add: element_text_def)
  qed
qed

lemma stringify_good:
  "SerializeJSONProperty h stk v0 = Inr (Some s) \<Longrightarrow> good s"
proof (induction h stk v0 arbitrary: s rule: SerializeJSONProperty.induct)
  case (1 h stk v0)
  from "1.prems" obtain v where ap: "apply_toJSON h v0 = Inr v"
    by (cases "apply_toJSON h v0") (simp_all add: SerializeJSONProperty.simps[of h stk v0])
  note eq = "1.prems"[unfolded SerializeJSONProperty.simps[of h stk v0] ap, simplified]
  show ?case
  proof (cases v)
    case (VRef a)
    show ?thesis
    proof (cases "a < length h")
      case False
      with eq VRef show ?thesis by simp
    next
      case inb: True
      show ?thesis
      proof (cases "h ! a")
        case OFunction
        with eq VRef inb show ?thesis by simp
      next
        case (OArray vs)
        with eq VRef inb have fresh: "a \<notin> set stk" by (auto split: if_splits)
        with eq VRef inb OArray obtain rs where
          rs: "sequence (map (\<lambda>x. SerializeJSONProperty h (a # stk) x) vs) = Inr rs"
          and s: "s = ''['' @ join '','' (map element_text rs) @ '']''"
          by (auto split: sum.splits)
        have "\<forall>e \<in> set (map element_text rs). good e"
          using rs "1.IH"(1)[OF ap VRef inb OArray fresh] by (rule elements_good)
        then show ?thesis unfolding s by (rule good_array)
      next
        case (OObject ps)
        with eq VRef inb have fresh: "a \<notin> set stk" by (auto split: if_splits)
        with eq VRef inb OObject obtain rs where
          rs: "sequence (map (\<lambda>p. keyed (fst p) (SerializeJSONProperty h (a # stk) (snd p))) ps) = Inr rs"
          and s: "s = ''{'' @ join '','' (concat (map member_text rs)) @ ''}''"
          by (auto split: sum.splits)
        have "\<forall>t \<in> set (concat (map member_text rs)). is_member t"
          using rs "1.IH"(2)[OF ap VRef inb OObject fresh] by (rule members_good)
        then show ?thesis unfolding s by (rule good_object)
      next
        case (OError out ps)
        with eq VRef inb have fresh: "a \<notin> set stk" by (auto split: if_splits)
        with eq VRef inb OError obtain rs where
          rs: "sequence (map (\<lambda>p. keyed (fst p) (SerializeJSONProperty h (a # stk) (snd p))) ps) = Inr rs"
          and s: "s = ''{'' @ join '','' (concat (map member_text rs)) @ ''}''"
          by (auto split: sum.splits)
        have "\<forall>t \<in> set (concat (map member_text rs)). is_member t"
          using rs "1.IH"(3)[OF ap VRef inb OError fresh] by (rule members_good)
        then show ?thesis unfolding s by (rule good_object)
      next
        case (OProxy e)
        with eq VRef inb show ?thesis by simp
      qed
    qed
  qed (use eq in \<open>auto simp: good_literals good_string good_number\<close>)
qed

lemma good_parses: "good s \<Longrightarrow> JSON_parse (Some s) = Inr ()"
proof -
  assume "good s"
  then obtain m where m: "value_done m" "run Go [] (s @ []) = run m [] []"
    unfolding good_def by blast
  then show ?thesis
    by (auto simp: JSON_parse_def ToString_opt_def value_done_def complete_def)
qed

lemma isSerializable_iff:
  "isSerializable h v \<longleftrightarrow> (\<exists>s. JSON_stringify h v = Inr (Some s))"
proof
  assume "isSerializable h v"
  then obtain r where r: "JSON_stringify h v = Inr r" and p: "JSON_parse r = Inr ()"
    by (auto simp: isSerializable_def split: sum.splits)
  from p parse_undefined have "r \<noteq> None" by (cases r) simp_all
  with r show "\<exists>s. JSON_stringify h v = Inr (Some s)" by auto
next
  assume "\<exists>s. JSON_stringify h v = Inr (Some s)"
  then obtain s where s: "JSON_stringify h v = Inr (Some s)" by blast
  then have "good s" unfolding JSON_stringify_def by (rule stringify_good)
  then have "JSON_parse (Some s) = Inr ()" by (rule good_parses)
  with s show "isSerializable h v" by (simp add: isSerializable_def)
qed

text \<open>
  What \<^verbatim>\<open>toJSON\<close> leaves in \<^verbatim>\<open>this.detail\<close>: the string form of an error, else the JSON text
  of a value that serializes to a string, else the generic message of the constructor.
  The entry it returns does not read that property.
\<close>

lemma toJSON_computes_detail:
  assumes "toJSON h (new_InternalServerError F) = Inr (d, t)"
  shows "(if instanceof_Error h F = Inr True then Error_toString h F = Inr (detail t)
          else detail t =
            (case JSON_stringify h F of
               Inr (Some s) \<Rightarrow> VString s
             | _ \<Rightarrow> VString generic_detail))
       \<and> field ''detail'' d = Some (JStr '''')"
proof -
  from assms obtain b where b: "instanceof_Error h F = Inr b"
    by (cases "instanceof_Error h F") (simp_all add: toJSON_def)
  show ?thesis
  proof (cases b)
    case True
    with b assms show ?thesis
      by (auto simp: toJSON_def new_InternalServerError_def split: sum.splits)
  next
    case notErr: False
    show ?thesis
    proof (cases "isSerializable h F")
      case True
      then obtain s where "JSON_stringify h F = Inr (Some s)"
        using isSerializable_iff by blast
      with notErr b True assms show ?thesis
        by (auto simp: toJSON_def new_InternalServerError_def ToValue_def)
    next
      case False
      then have "\<nexists>s. JSON_stringify h F = Inr (Some s)"
        using isSerializable_iff by blast
      then have "(case JSON_stringify h F of Inr (Some s) \<Rightarrow> VString s | _ \<Rightarrow> VString generic_detail)
          = VString generic_detail"
        by (auto split: sum.splits option.splits)
      with notErr b False assms show ?thesis
        by (auto simp: toJSON_def new_InternalServerError_def)
    qed
  qed
qed
section \<open>Properties of the controller\<close>

subsection \<open>What a store call leaves behind\<close>

lemma attempt_effect:
  assumes "attempt t c w = (r, w')"
  shows "trace w' = trace w @ [Call t c]" "table w' = arriving w" "mem w' = mem w"
    "drawn w' = drawn w" "next_id w' = next_id w"
  using assms
  by (auto simp: attempt_def record_event_def arriving_def split: list.splits directive.splits)

lemma arriving_now: "next_call_succeeds w \<Longrightarrow> arriving w = table w"
  by (auto simp: arriving_def next_call_succeeds_def split: list.splits directive.splits)

lemma attempt_succeeds:
  assumes "next_call_succeeds w"
  shows "\<exists>w'. attempt t c w = (None, w')"
  using assms by (auto simp: attempt_def next_call_succeeds_def split: list.splits)

lemma findByPk_effect:
  assumes "User_findByPk i w = (r, w')"
  shows "trace w' = trace w @ [Call False (FindByPk i)]" "table w' = arriving w" "mem w' = mem w"
    "drawn w' = drawn w" "next_id w' = next_id w"
  using assms
  by (auto simp: User_findByPk_def split: prod.splits option.splits dest: attempt_effect)

lemma findByPk_found:
  assumes "User_findByPk i w = (Inr r, w')"
  shows "r = map_of (table w') i"
  using assms
  by (auto simp: User_findByPk_def split: prod.splits option.splits)

lemma findByPk_absent:
  assumes "map_of (table w) i = None" "next_call_succeeds w"
  shows "\<exists>w'. User_findByPk i w = (Inr None, w')"
proof -
  obtain w' where a: "attempt False (FindByPk i) w = (None, w')"
    using attempt_succeeds[OF assms(2)] by blast
  then have "table w' = table w"
    using attempt_effect(2)[OF a] arriving_now[OF assms(2)] by simp
  with a assms(1) show ?thesis by (simp add: User_findByPk_def)
qed

lemma writes_append: "writes (xs @ ys) = writes xs @ writes ys"
  by (induction xs rule: writes.induct) simp_all

lemma invocations_append: "invocations (xs @ ys) = invocations xs + invocations ys"
  by (induction xs rule: invocations.induct) simp_all

lemma docWithErrors_resourceNotFound: "docWithErrors (resourceNotFound D) = not_found_document D"
  by (simp add: docWithErrors_def resourceNotFound_def not_found_document_def)

lemma getUserById_absent:
  assumes "User_findByPk i w = (Inr None, w')"
  shows "getUserById D i w = (Inr (Inl (resourceNotFound D)), w')"
    "getUserById_part_000 D i w = (Inr (None, Some (resourceNotFound D)), w')"
  using assms by (simp_all add: getUserById_def getUserById_part_000_def)

lemma absent_is_404:
  assumes "User_findByPk (params_id req) w = (Inr None, w')"
  shows "update D req w = (Inr (Response NOT_FOUND (not_found_document D)), w')"
    "destroy D req w = (Inr (Response NOT_FOUND (not_found_document D)), w')"
    "update_part_000 D req w = (Inr (Response NOT_FOUND (not_found_document D)), w')"
    "destroy_part_000 D req w = (Inr (Response NOT_FOUND (not_found_document D)), w')"
  using getUserById_absent[OF assms, of D]
  by (simp_all add: update_def destroy_def update_part_000_def destroy_part_000_def
      docWithErrors_resourceNotFound)

text \<open>
  C7. For every update or delete request whose id has no stored resource (the lookup
  returns absent), in either controller file, the response is a 404 whose document holds
  a single error entry, the lookup is the only store call of the request, and the rows
  are as they were: no write is attempted.
\<close>

theorem absent_id_404_no_write:
  assumes "map_of (table w) (params_id req) = None" and "next_call_succeeds w"
    and "handler \<in> {update, destroy, update_part_000, destroy_part_000}"
  shows "\<exists>w'. handler D req w = (Inr (Response NOT_FOUND (JObj [(''errors'', JArr [resourceNotFound D])])), w')
          \<and> trace w' = trace w @ [Call False (FindByPk (params_id req))]
          \<and> writes (trace w') = writes (trace w)
          \<and> table w' = table w"
proof -
  obtain w' where f: "User_findByPk (params_id req) w = (Inr None, w')"
    using findByPk_absent[OF assms(1,2)] by blast
  have tr: "trace w' = trace w @ [Call False (FindByPk (params_id req))]"
    and tb: "table w' = table w"
    using findByPk_effect[OF f] arriving_now[OF assms(2)] by simp_all
  have wr: "writes (trace w @ [Call False (FindByPk (params_id req))]) = writes (trace w)"
    by (simp add: writes_append)
  show ?thesis
    using assms(3) absent_is_404[OF f, of D] tr tb wr
    by (auto simp: not_found_document_def)
qed


lemma example_absent:
  "map_of (table example_world) ''42'' = None \<and> next_call_succeeds example_world"
  by (simp add: example_world_def next_call_succeeds_def)

theorem absent_id_404_no_write_witness:
  "map_of (table example_world) ''42'' = None \<and> next_call_succeeds example_world
   \<and> (\<exists>w'. destroy example_deps \<lparr>params_id = ''42'', body = []\<rparr> example_world
              = (Inr (Response NOT_FOUND (JObj [(''errors'', JArr [resourceNotFound example_deps])])), w')
            \<and> trace w' = [Call False (FindByPk ''42'')]
            \<and> writes (trace w') = []
            \<and> table w' = table example_world)"
proof -
  have a: "map_of (table example_world) (params_id \<lparr>params_id = ''42'', body = []\<rparr>) = None"
    by (simp add: example_world_def)
  have b: "next_call_succeeds example_world"
    by (simp add: example_world_def next_call_succeeds_def)
  have c: "destroy \<in> {update, destroy, update_part_000, destroy_part_000}" by simp
  show ?thesis
    using absent_id_404_no_write[OF a b c, of example_deps] a b
    by (simp add: example_world_def)
qed


subsection \<open>Update answers with the reloaded row\<close>

lemma update_effect:
  assumes "User_update D i vs t w = (Inr u, w')"
  shows "trace w' = trace w @ [Call t (Update i vs)]"
    "table w' = map (\<lambda>(k, r). if k = i then (k, assign D r vs) else (k, r)) (arriving w)"
  using assms
  by (auto simp: User_update_def split: prod.splits option.splits dest: attempt_effect)

lemma transaction_Inr:
  assumes "transaction fn w = (Inr x, w')"
  shows "\<exists>w1. fn True (record_event Begin w) = (Inr x, w1) \<and> w' = record_event Commit w1"
  using assms by (auto simp: transaction_def split: prod.splits sum.splits)

lemma record_event_simps [simp]:
  "trace (record_event e w) = trace w @ [e]" "table (record_event e w) = table w"
  "mem (record_event e w) = mem w" "drawn (record_event e w) = drawn w"
  "next_id (record_event e w) = next_id w" "pending (record_event e w) = pending w"
  by (simp_all add: record_event_def)

lemma arriving_record_event [simp]: "arriving (record_event e w) = arriving w"
  by (simp add: arriving_def split: list.splits directive.splits)

lemma reload_effect:
  assumes "User_reload i w = (Inr r, w')"
  shows "map_of (table w') i = Some r" "table w' = arriving w"
    "trace w' = trace w @ [Call False (Reload i)]"
  using assms
  by (auto simp: User_reload_def split: prod.splits option.splits dest: attempt_effect)

lemma update_ok:
  assumes "update D req w = (Inr (Response OK doc), w')"
  shows "\<exists>u w1 vs w2 r.
        getUserById D (params_id req) w = (Inr (Inr u), w1)
      \<and> runAllValidations D update_validations (body req) = Valid vs
      \<and> transaction (\<lambda>t. User_update D (params_id req) vs t) w1 = (Inr (), w2)
      \<and> User_reload (params_id req) w2 = (Inr r, w')
      \<and> map_of (table w') (params_id req) = Some r
      \<and> doc = docWithData (convert D r)
      \<and> trace w' = trace w @ [Call False (FindByPk (params_id req)), Begin,
                               Call True (Update (params_id req) vs), Commit,
                               Call False (Reload (params_id req))]"
proof -
  let ?i = "params_id req"
  from assms obtain u w1 where g: "User_findByPk ?i w = (Inr (Some u), w1)"
    by (auto simp: update_def getUserById_def split: prod.splits sum.splits option.splits)
  then have gu: "getUserById D ?i w = (Inr (Inr u), w1)" by (simp add: getUserById_def)
  from assms gu obtain vs where v: "runAllValidations D update_validations (body req) = Valid vs"
    by (auto simp: update_def split: outcome.splits)
  from assms gu v obtain w2 where t: "transaction (\<lambda>t. User_update D ?i vs t) w1 = (Inr (), w2)"
    by (auto simp: update_def split: prod.splits sum.splits)
  from assms gu v t obtain r where rl: "User_reload ?i w2 = (Inr r, w')"
    and doc: "doc = docWithData (convert D r)"
    by (auto simp: update_def split: prod.splits sum.splits)
  from transaction_Inr[OF t] obtain w1' where
    up: "User_update D ?i vs True (record_event Begin w1) = (Inr (), w1')" and w2: "w2 = record_event Commit w1'"
    by blast
  have tr1: "trace w1 = trace w @ [Call False (FindByPk ?i)]"
    using findByPk_effect[OF g] by simp
  have tr2: "trace w2 = trace w1 @ [Begin, Call True (Update ?i vs), Commit]"
    using update_effect[OF up] w2 by simp
  have tr3: "trace w' = trace w2 @ [Call False (Reload ?i)]"
    and r: "map_of (table w') ?i = Some r"
    using reload_effect[OF rl] by simp_all
  from gu v t rl r doc tr1 tr2 tr3 show ?thesis by simp
qed

lemma update_part_000_ok:
  assumes "update_part_000 D req w = (Inr (Response OK doc), w')"
  shows "\<exists>u w1 vs w2 r.
        getUserById_part_000 D (params_id req) w = (Inr (Some u, None), w1)
      \<and> runAllValidations D update_validations (body req) = Valid vs
      \<and> User_update D (params_id req) vs False w1 = (Inr (), w2)
      \<and> User_reload (params_id req) w2 = (Inr r, w')
      \<and> map_of (table w') (params_id req) = Some r
      \<and> doc = docWithData (convert D r)
      \<and> trace w' = trace w @ [Call False (FindByPk (params_id req)),
                               Call False (Update (params_id req) vs),
                               Call False (Reload (params_id req))]"
proof -
  let ?i = "params_id req"
  from assms obtain u w1 where g: "User_findByPk ?i w = (Inr (Some u), w1)"
    by (auto simp: update_part_000_def getUserById_part_000_def
        split: prod.splits sum.splits option.splits outcome.splits if_splits)
  then have gu: "getUserById_part_000 D ?i w = (Inr (Some u, None), w1)"
    by (simp add: getUserById_part_000_def)
  from assms gu obtain vs where v: "runAllValidations D update_validations (body req) = Valid vs"
    by (auto simp: update_part_000_def split: outcome.splits)
  from assms gu v obtain w2 where up: "User_update D ?i vs False w1 = (Inr (), w2)"
    by (auto simp: update_part_000_def split: prod.splits sum.splits)
  from assms gu v up obtain r where rl: "User_reload ?i w2 = (Inr r, w')"
    and doc: "doc = docWithData (convert D r)"
    by (auto simp: update_part_000_def split: prod.splits sum.splits)
  have tr1: "trace w1 = trace w @ [Call False (FindByPk ?i)]"
    using findByPk_effect[OF g] by simp
  have tr2: "trace w2 = trace w1 @ [Call False (Update ?i vs)]"
    using update_effect[OF up] by simp
  have tr3: "trace w' = trace w2 @ [Call False (Reload ?i)]"
    and r: "map_of (table w') ?i = Some r"
    using reload_effect[OF rl] by simp_all
  from gu v up rl r doc tr1 tr2 tr3 show ?thesis by simp
qed

text \<open>
  C8. For every successful update (a 200), in either controller file, the data of the
  answer is the public representation of the row that the call of \<^verbatim>\<open>reload\<close> returned:
  the handler looked the user up, validated, wrote (and committed, in
  \<^verbatim>\<open>userController.ts\<close>), then called \<^verbatim>\<open>reload\<close>, its last store call, and the row this
  call read is the one converted into the answer. It is the row the store holds when the
  request ends; it is neither the validated values that were submitted nor a value
  worked out from them and from the row looked up before the write.
\<close>

theorem update_answers_with_reloaded_row:
  "(update D req w = (Inr (Response OK doc), w') \<longrightarrow>
      (\<exists>u w1 vs w2 r.
           getUserById D (params_id req) w = (Inr (Inr u), w1)
         \<and> runAllValidations D update_validations (body req) = Valid vs
         \<and> transaction (\<lambda>t. User_update D (params_id req) vs t) w1 = (Inr (), w2)
         \<and> User_reload (params_id req) w2 = (Inr r, w')
         \<and> map_of (table w') (params_id req) = Some r
         \<and> doc = docWithData (convert D r)
         \<and> trace w' = trace w @ [Call False (FindByPk (params_id req)), Begin,
                                  Call True (Update (params_id req) vs), Commit,
                                  Call False (Reload (params_id req))]))
   \<and> (update_part_000 D req w = (Inr (Response OK doc), w') \<longrightarrow>
      (\<exists>u w1 vs w2 r.
           getUserById_part_000 D (params_id req) w = (Inr (Some u, None), w1)
         \<and> runAllValidations D update_validations (body req) = Valid vs
         \<and> User_update D (params_id req) vs False w1 = (Inr (), w2)
         \<and> User_reload (params_id req) w2 = (Inr r, w')
         \<and> map_of (table w') (params_id req) = Some r
         \<and> doc = docWithData (convert D r)
         \<and> trace w' = trace w @ [Call False (FindByPk (params_id req)),
                                  Call False (Update (params_id req) vs),
                                  Call False (Reload (params_id req))]))"
  using update_ok[of D req w doc w'] update_part_000_ok[of D req w doc w'] by blast

lemma update_example:
  "fst (update example_deps rename_request busy_world) = Inr (Response OK reloaded_document)"
  by code_simp

lemma update_part_000_example:
  "fst (update_part_000 example_deps rename_request busy_world) = Inr (Response OK reloaded_document)"
  by code_simp

lemma update_example_row:
  "map_of (table (snd (update example_deps rename_request busy_world))) ''1''
   = Some [(''id'', VString ''1''), (''name'', VString ''k3x9q0a7m2d5f8z''),
           (''screenName'', VString ''@bob''), (''email'', VString ''ann@example.net''),
           (''password'', VString ''correct horse'')]"
  by code_simp

lemma update_part_000_example_row:
  "map_of (table (snd (update_part_000 example_deps rename_request busy_world))) ''1''
   = Some [(''id'', VString ''1''), (''name'', VString ''k3x9q0a7m2d5f8z''),
           (''screenName'', VString ''@bob''), (''email'', VString ''ann@example.net''),
           (''password'', VString ''correct horse'')]"
  by code_simp

lemma example_lookup:
  "fst (getUserById example_deps ''1'' busy_world)
   = Inr (Inr [(''id'', VString ''1''), (''name'', VString ''k3x9q0a7m2d5f8z''),
               (''screenName'', VString ''@ann''), (''email'', VString ''ann@example.org''),
               (''password'', VString ''correct horse'')])"
  by code_simp


text \<open>
  In the example the submitted screen name is \<^verbatim>\<open>bob\<close> and the setter stores \<^verbatim>\<open>@bob\<close>;
  a second client changes the e-mail address before the reload. The answer shows the
  stored screen name and the second client's address, which the handler can have from
  \<^verbatim>\<open>reload\<close> only: the row looked up and the validated values do not hold it.
\<close>

theorem update_answers_with_reloaded_row_witness:
  "fst (update example_deps rename_request busy_world) = Inr (Response OK reloaded_document)
   \<and> fst (update_part_000 example_deps rename_request busy_world) = Inr (Response OK reloaded_document)
   \<and> (\<exists>r. map_of (table (snd (update example_deps rename_request busy_world))) ''1'' = Some r
          \<and> reloaded_document = docWithData (convert example_deps r)
          \<and> get r ''screenName'' = VString ''@bob''
          \<and> get r ''email'' = VString ''ann@example.net'')
   \<and> (\<exists>r. map_of (table (snd (update_part_000 example_deps rename_request busy_world))) ''1'' = Some r
          \<and> reloaded_document = docWithData (convert example_deps r)
          \<and> get r ''screenName'' = VString ''@bob''
          \<and> get r ''email'' = VString ''ann@example.net'')
   \<and> reloaded_document \<noteq> docWithData (convert example_deps rename_values)
   \<and> reloaded_document \<noteq>
       docWithData (convert example_deps
         (assign example_deps
            [(''id'', VString ''1''), (''name'', VString ''k3x9q0a7m2d5f8z''),
             (''screenName'', VString ''@ann''), (''email'', VString ''ann@example.org''),
             (''password'', VString ''correct horse'')]
            rename_values))"
proof -
  let ?u = "update example_deps rename_request busy_world"
  let ?p = "update_part_000 example_deps rename_request busy_world"
  have i: "params_id rename_request = ''1''" by (simp add: rename_request_def)
  have eu: "?u = (Inr (Response OK reloaded_document), snd ?u)"
    using update_example by (metis prod.collapse)
  have ep: "?p = (Inr (Response OK reloaded_document), snd ?p)"
    using update_part_000_example by (metis prod.collapse)
  from update_answers_with_reloaded_row[of example_deps rename_request busy_world
      reloaded_document "snd ?u"] eu
  obtain r where r: "map_of (table (snd ?u)) (params_id rename_request) = Some r"
    "reloaded_document = docWithData (convert example_deps r)"
    by auto
  from update_answers_with_reloaded_row[of example_deps rename_request busy_world
      reloaded_document "snd ?p"] ep
  obtain q where q: "map_of (table (snd ?p)) (params_id rename_request) = Some q"
    "reloaded_document = docWithData (convert example_deps q)"
    by auto
  from r(1) i update_example_row
  have gr: "get r ''screenName'' = VString ''@bob''" "get r ''email'' = VString ''ann@example.net''"
    by (auto simp: get_def)
  from q(1) i update_part_000_example_row
  have gq: "get q ''screenName'' = VString ''@bob''" "get q ''email'' = VString ''ann@example.net''"
    by (auto simp: get_def)
  have n1: "reloaded_document \<noteq> docWithData (convert example_deps rename_values)"
    by (simp add: reloaded_document_def docWithData_def example_deps_def rename_values_def)
  have n2: "reloaded_document \<noteq>
       docWithData (convert example_deps
         (assign example_deps
            [(''id'', VString ''1''), (''name'', VString ''k3x9q0a7m2d5f8z''),
             (''screenName'', VString ''@ann''), (''email'', VString ''ann@example.org''),
             (''password'', VString ''correct horse'')]
            rename_values))"
    by (simp add: reloaded_document_def docWithData_def example_deps_def rename_values_def
        assign_def)
  show ?thesis
    using update_example update_part_000_example r q gr gq n1 n2 i by auto
qed


subsection \<open>The name of a created user\<close>




lemma run_validation_unguarded:
  "run_validation D payload (Validation f False cs) =
     (fst (run_chain D f False (get payload f) cs),
      [(f, snd (run_chain D f False (get payload f) cs))])"
  by (simp add: run_validation_def Let_def split: prod.splits)






lemma generated_name_Begin: "generated_name D (record_event Begin w) = generated_name D w"
  by (simp add: generated_name_def alphaNumeric_def)













subsection \<open>Writes and transactions\<close>

lemma attempt_trace: "trace (snd (attempt t c w)) = trace w @ [Call t c]"
  by (simp add: attempt_def split: list.splits directive.splits)

lemma User_update_trace: "trace (snd (User_update D i vs t w)) = trace w @ [Call t (Update i vs)]"
  using attempt_trace[of t "Update i vs" w]
  by (auto simp: User_update_def split: prod.splits option.splits)

lemma User_destroy_trace: "trace (snd (User_destroy i t w)) = trace w @ [Call t (Destroy i)]"
  using attempt_trace[of t "Destroy i" w]
  by (auto simp: User_destroy_def split: prod.splits option.splits)

lemma User_create_trace: "trace (snd (User_create D vs t w)) = trace w @ [Call t (Create vs)]"
  using attempt_trace[of t "Create vs" w]
  by (auto simp: User_create_def Let_def split: prod.splits option.splits)

lemma User_reload_trace: "trace (snd (User_reload i w)) = trace w @ [Call False (Reload i)]"
  using attempt_trace[of False "Reload i" w]
  by (auto simp: User_reload_def split: prod.splits option.splits)

lemma User_findByPk_trace: "trace (snd (User_findByPk i w)) = trace w @ [Call False (FindByPk i)]"
  using attempt_trace[of False "FindByPk i" w]
  by (auto simp: User_findByPk_def split: prod.splits option.splits)

lemma getUserById_trace: "trace (snd (getUserById D i w)) = trace w @ [Call False (FindByPk i)]"
  using User_findByPk_trace[of i w]
  by (auto simp: getUserById_def split: prod.splits sum.splits option.splits)

lemma transaction_trace:
  assumes "\<And>w0. trace (snd (fn True w0)) = trace w0 @ [Call True c]"
  shows "trace (snd (transaction fn w)) = trace w @ [Begin, Call True c, Commit]
       \<or> trace (snd (transaction fn w)) = trace w @ [Begin, Call True c, Rollback]"
proof -
  obtain r w1 where f: "fn True (record_event Begin w) = (r, w1)"
    by (cases "fn True (record_event Begin w)")
  with assms[of "record_event Begin w"] have "trace w1 = trace w @ [Begin, Call True c]"
    by simp
  with f show ?thesis
    by (cases r) (simp_all add: transaction_def)
qed

lemma create_trace:
  "\<exists>tr. trace (snd (create D req w)) = trace w @ tr \<and> wrapped_once tr"
proof (cases "runAllValidations D create_validations (body req)")
  case (Invalid fs)
  then have "trace (snd (create D req w)) = trace w @ []"
    by (simp add: create_def)
  moreover have "wrapped_once []" by (simp add: wrapped_once_def)
  ultimately show ?thesis by blast
next
  case (Valid vs)
  let ?fn = "\<lambda>t w1. case alphaNumeric D 15 w1 of
               (generated, w2) \<Rightarrow>
                 User_create D
                   [(''name'', VString generated),
                    (''screenName'', get vs ''screenName''),
                    (''email'', get vs ''email''),
                    (''password'', get vs ''password'')] t w2"
  have s: "snd (create D req w) = snd (transaction ?fn w)"
    using Valid by (simp add: create_def split: prod.splits sum.splits)
  have g: "\<And>w0. generated_name D (record_event Begin w) = fst (alphaNumeric D 15 w0)
            \<Longrightarrow> trace (snd (?fn True w0)) = trace w0 @ [Call True (Create (create_values D w vs))]"
    by (auto simp: create_values_def generated_name_Begin alphaNumeric_def User_create_trace
        split: prod.splits)
  obtain r w1 where f: "?fn True (record_event Begin w) = (r, w1)"
    by (cases "?fn True (record_event Begin w)")
  have "trace w1 = trace w @ [Begin, Call True (Create (create_values D w vs))]"
    using g[of "record_event Begin w"] f by (simp add: generated_name_def)
  with f have "trace (snd (transaction ?fn w)) = trace w @ [Begin, Call True (Create (create_values D w vs)), Commit]
       \<or> trace (snd (transaction ?fn w)) = trace w @ [Begin, Call True (Create (create_values D w vs)), Rollback]"
    by (cases r) (simp_all add: transaction_def)
  moreover have "wrapped_once [Begin, Call True (Create (create_values D w vs)), Commit]"
    "wrapped_once [Begin, Call True (Create (create_values D w vs)), Rollback]"
    by (simp_all add: wrapped_once_def)
  ultimately show ?thesis using s by metis
qed

lemma destroy_trace:
  "\<exists>tr. trace (snd (destroy D req w)) = trace w @ tr \<and> wrapped_once tr"
proof -
  let ?i = "params_id req"
  let ?F = "Call False (FindByPk ?i)"
  obtain r w1 where g: "getUserById D ?i w = (r, w1)"
    by (cases "getUserById D ?i w")
  then have t1: "trace w1 = trace w @ [?F]"
    using getUserById_trace[of D ?i w] by simp
  have w0: "wrapped_once [?F]" by (simp add: wrapped_once_def)
  show ?thesis
  proof (cases r)
    case (Inl e)
    with g have "snd (destroy D req w) = w1"
      by (simp add: destroy_def)
    with t1 w0 show ?thesis by auto
  next
    case (Inr x)
    show ?thesis
    proof (cases x)
      case (Inl nf)
      with Inr g have "snd (destroy D req w) = w1"
        by (simp add: destroy_def)
      with t1 w0 show ?thesis by auto
    next
      case (Inr user)
      with \<open>r = Inr x\<close> g
      have s: "snd (destroy D req w) = snd (transaction (\<lambda>t. User_destroy ?i t) w1)"
        by (simp add: destroy_def split: prod.splits sum.splits)
      from transaction_trace[of "\<lambda>t. User_destroy ?i t" "Destroy ?i" w1] User_destroy_trace
      have "trace (snd (destroy D req w)) = trace w @ [?F, Begin, Call True (Destroy ?i), Commit]
          \<or> trace (snd (destroy D req w)) = trace w @ [?F, Begin, Call True (Destroy ?i), Rollback]"
        by (simp add: s t1)
      moreover have "wrapped_once [?F, Begin, Call True (Destroy ?i), Commit]"
        "wrapped_once [?F, Begin, Call True (Destroy ?i), Rollback]"
        by (simp_all add: wrapped_once_def)
      ultimately show ?thesis by metis
    qed
  qed
qed

lemma update_shape:
  "\<exists>tr. trace (snd (update D req w)) = trace w @ tr \<and> tr \<in> update_shapes D req"
proof -
  let ?i = "params_id req"
  let ?F = "Call False (FindByPk ?i)"
  obtain r w1 where g: "getUserById D ?i w = (r, w1)"
    by (cases "getUserById D ?i w")
  then have t1: "trace w1 = trace w @ [?F]"
    using getUserById_trace[of D ?i w] by simp
  have w0: "[?F] \<in> update_shapes D req" by (simp add: update_shapes_def Let_def)
  show ?thesis
  proof (cases r)
    case (Inl e)
    with g have "snd (update D req w) = w1"
      by (simp add: update_def)
    with t1 w0 show ?thesis by auto
  next
    case (Inr x)
    show ?thesis
    proof (cases x)
      case (Inl nf)
      with Inr g have "snd (update D req w) = w1"
        by (simp add: update_def)
      with t1 w0 show ?thesis by auto
    next
      case user: (Inr user)
      show ?thesis
      proof (cases "runAllValidations D update_validations (body req)")
        case (Invalid fs)
        with user Inr g have "snd (update D req w) = w1"
          by (simp add: update_def)
        with t1 w0 show ?thesis by auto
      next
        case (Valid vs)
        let ?U = "Call True (Update ?i vs)"
        obtain q w2 where t: "transaction (\<lambda>t. User_update D ?i vs t) w1 = (q, w2)"
          by (cases "transaction (\<lambda>t. User_update D ?i vs t) w1")
        from transaction_trace[of "\<lambda>t. User_update D ?i vs t" "Update ?i vs" w1] User_update_trace t
        have t2: "trace w2 = trace w @ [?F, Begin, ?U, Commit] \<or> trace w2 = trace w @ [?F, Begin, ?U, Rollback]"
          by (simp add: t1)
        show ?thesis
        proof (cases q)
          case (Inl e)
          with t Valid user Inr g have "snd (update D req w) = w2"
            by (simp add: update_def)
          moreover have "[?F, Begin, ?U, Commit] \<in> update_shapes D req"
            "[?F, Begin, ?U, Rollback] \<in> update_shapes D req"
            using Valid by (simp_all add: update_shapes_def Let_def)
          ultimately show ?thesis using t2 by metis
        next
          case (Inr u)
          with t have c: "trace w2 = trace w @ [?F, Begin, ?U, Commit]"
            using t1 User_update_trace[of D ?i vs True "record_event Begin w1"]
            by (auto simp: transaction_def split: prod.splits sum.splits)
          from Inr t Valid user \<open>r = Inr x\<close> g
          have "snd (update D req w) = snd (User_reload ?i w2)"
            by (simp add: update_def split: prod.splits sum.splits)
          then have "trace (snd (update D req w)) = trace w @ [?F, Begin, ?U, Commit, Call False (Reload ?i)]"
            using User_reload_trace[of ?i w2] c by simp
          moreover have "[?F, Begin, ?U, Commit, Call False (Reload ?i)] \<in> update_shapes D req"
            using Valid by (simp add: update_shapes_def Let_def)
          ultimately show ?thesis by metis
        qed
      qed
    qed
  qed
qed

lemma update_shapes_wrapped: "tr \<in> update_shapes D req \<Longrightarrow> wrapped_once tr"
  by (auto simp: update_shapes_def Let_def wrapped_once_def split: outcome.splits)

lemma update_trace:
  "\<exists>tr. trace (snd (update D req w)) = trace w @ tr \<and> wrapped_once tr"
  using update_shape[of D req w] update_shapes_wrapped by blast

text \<open>
  In \<^verbatim>\<open>src/controllers/userController.ts\<close> the three mutating handlers issue no write
  outside a transaction, and enter \<^verbatim>\<open>db.transaction\<close> once for the one write they make
  (not at all when the request ends before the write).
\<close>

lemma controller_writes_in_one_transaction:
  assumes "handler \<in> {create, update, destroy}"
  shows "\<exists>tr. trace (snd (handler D req w)) = trace w @ tr
           \<and> unwrapped False tr = []
           \<and> invocations tr = length (writes tr)
           \<and> length (writes tr) \<le> 1"
  using assms create_trace[of D req w] update_trace[of D req w] destroy_trace[of D req w]
  by (auto simp: wrapped_once_def)

text \<open>
  C4. The claim: each of create, update and delete performs its write through exactly one
  invocation of \<^verbatim>\<open>db.transaction\<close>, and no write is issued outside a transaction. The
  handlers of \<^verbatim>\<open>src/unnamed/part_000\<close> never enter a transaction: a valid create issues
  \<^verbatim>\<open>User.create\<close> bare.
\<close>

theorem create_part_000_writes_outside_transaction:
  "trace (snd (create_part_000 example_deps signup_request example_world))
     = [Call False (Create signup_values)]
   \<and> unwrapped False (trace (snd (create_part_000 example_deps signup_request example_world)))
     = [Create signup_values]
   \<and> invocations (trace (snd (create_part_000 example_deps signup_request example_world))) = 0
   \<and> fst (create_part_000 example_deps signup_request example_world)
     = Inr (Response CREATED signup_document)"
  by code_simp

lemma update_part_000_writes_outside_transaction:
  "trace (snd (update_part_000 example_deps rename_request example_world))
     = [Call False (FindByPk ''1''), Call False (Update ''1'' rename_values),
        Call False (Reload ''1'')]
   \<and> unwrapped False (trace (snd (update_part_000 example_deps rename_request example_world)))
     = [Update ''1'' rename_values]"
  by code_simp

lemma destroy_part_000_writes_outside_transaction:
  "trace (snd (destroy_part_000 example_deps \<lparr>params_id = ''1'', body = []\<rparr> example_world))
     = [Call False (FindByPk ''1''), Call False (Destroy ''1'')]
   \<and> unwrapped False (trace (snd (destroy_part_000 example_deps \<lparr>params_id = ''1'', body = []\<rparr> example_world)))
     = [Destroy ''1'']"
  by code_simp

subsection \<open>Validation: every missing required field is reported\<close>

lemma set_keep_first: "set (keep_first seen xs) = set xs - set seen"
  by (induction xs arbitrary: seen) auto

lemma set_errorFormatter: "set (errorFormatter fs) = (\<lambda>(f, c, m). (f, m)) ` set fs"
  by (simp add: errorFormatter_def set_keep_first)

lemma validationError_entries:
  "validationError es = JArr (map (\<lambda>(f, m). entry_422 f m) es)"
  by (simp add: validationError_def entry_422_def)

lemma docWithErrors_validationError:
  "docWithErrors (validationError es) = JObj [(''errors'', JArr (map (\<lambda>(f, m). entry_422 f m) es))]"
  by (simp add: validationError_entries docWithErrors_def)

lemma run_chain_MustExist_absent:
  "(f, MustExist, errorMessage D MustExist) \<in> set (fst (run_chain D f b VUndefined (MustExist # cs)))"
  by (simp split: prod.splits)

lemma failures_of_validation:
  assumes "val \<in> set vals" and "x \<in> set (fst (run_validation D payload val))"
  shows "\<exists>fs. runAllValidations D vals payload = Invalid fs \<and> x \<in> set fs"
proof -
  let ?fs = "concat (map fst (map (run_validation D payload) vals))"
  from assms have "x \<in> set ?fs" by auto
  then have "?fs \<noteq> []" by (cases ?fs) simp_all
  with \<open>x \<in> set ?fs\<close> show ?thesis
    by (simp add: runAllValidations_def Let_def)
qed

lemma required_validation:
  assumes "f \<in> required_fields"
  shows "\<exists>cs. Validation f False (MustExist # cs) \<in> set create_validations"
  using assms
  by (auto simp: required_fields_def create_validations_def checkBodySchema_def shouldExist_def)

lemma missing_required_field_fails:
  assumes "f \<in> required_fields" and "get payload f = VUndefined"
  shows "\<exists>fs. runAllValidations D create_validations payload = Invalid fs
            \<and> (f, MustExist, errorMessage D MustExist) \<in> set fs"
proof -
  from required_validation[OF assms(1)] obtain cs
    where v: "Validation f False (MustExist # cs) \<in> set create_validations" by blast
  have "(f, MustExist, errorMessage D MustExist)
          \<in> set (fst (run_validation D payload (Validation f False (MustExist # cs))))"
    unfolding run_validation_unguarded fst_conv assms(2)
    by (rule run_chain_MustExist_absent)
  with v show ?thesis by (rule failures_of_validation)
qed

lemma create_invalid:
  assumes "runAllValidations D create_validations (body req) = Invalid fs"
  shows "create D req w =
           (Inr (Response UNPROCESSABLE_ENTITY
                  (JObj [(''errors'', JArr (map (\<lambda>(f, m). entry_422 f m) (errorFormatter fs)))])), w)"
    "create_part_000 D req w =
           (Inr (Response UNPROCESSABLE_ENTITY
                  (JObj [(''errors'', JArr (map (\<lambda>(f, m). entry_422 f m) (errorFormatter fs)))])), w)"
  using assms by (simp_all add: create_def create_part_000_def docWithErrors_validationError)

text \<open>
  C5. For every create payload that lacks at least one of \<^verbatim>\<open>screenName\<close>, \<^verbatim>\<open>email\<close> and
  \<^verbatim>\<open>password\<close>, the response is a 422 whose errors hold an entry for every one of the
  three that is missing, not only for the first. (The store is not touched.)
\<close>

theorem create_reports_every_missing_field:
  assumes "\<exists>f \<in> {''screenName'', ''email'', ''password''}. get (body req) f = VUndefined"
    and "handler \<in> {create, create_part_000}"
  shows "\<exists>es. handler D req w = (Inr (Response UNPROCESSABLE_ENTITY (JObj [(''errors'', JArr es)])), w)
      \<and> (\<forall>f \<in> {''screenName'', ''email'', ''password''}.
            get (body req) f = VUndefined \<longrightarrow>
              JObj [(''status'', JNum 422), (''title'', JStr ''Unprocessable Entity''),
                    (''detail'', JStr (errorMessage D MustExist)),
                    (''source'', JObj [(''field'', JStr f)])] \<in> set es)"
proof -
  from assms(1) obtain f0 where "f0 \<in> required_fields" "get (body req) f0 = VUndefined"
    by (auto simp: required_fields_def)
  from missing_required_field_fails[OF this] obtain fs
    where fs: "runAllValidations D create_validations (body req) = Invalid fs" by blast
  let ?es = "map (\<lambda>(f, m). entry_422 f m) (errorFormatter fs)"
  have h: "handler D req w = (Inr (Response UNPROCESSABLE_ENTITY (JObj [(''errors'', JArr ?es)])), w)"
    using assms(2) create_invalid[OF fs, of w] by auto
  have "entry_422 f (errorMessage D MustExist) \<in> set ?es"
    if "f \<in> required_fields" "get (body req) f = VUndefined" for f
  proof -
    from missing_required_field_fails[OF that, of D] fs
    have "(f, MustExist, errorMessage D MustExist) \<in> set fs" by simp
    then have "(f, errorMessage D MustExist) \<in> set (errorFormatter fs)"
      unfolding set_errorFormatter by force
    then show ?thesis by force
  qed
  with h show ?thesis
    unfolding required_fields_def entry_422_def by blast
qed

theorem create_reports_every_missing_field_witness:
  "get (body email_only_request) ''screenName'' = VUndefined
   \<and> get (body email_only_request) ''password'' = VUndefined
   \<and> (\<exists>es. create example_deps email_only_request example_world
              = (Inr (Response UNPROCESSABLE_ENTITY (JObj [(''errors'', JArr es)])), example_world)
          \<and> JObj [(''status'', JNum 422), (''title'', JStr ''Unprocessable Entity''),
                   (''detail'', JStr ''Invalid value''),
                   (''source'', JObj [(''field'', JStr ''screenName'')])] \<in> set es
          \<and> JObj [(''status'', JNum 422), (''title'', JStr ''Unprocessable Entity''),
                   (''detail'', JStr ''Invalid value''),
                   (''source'', JObj [(''field'', JStr ''password'')])] \<in> set es)"
proof -
  have s: "get (body email_only_request) ''screenName'' = VUndefined"
    and p: "get (body email_only_request) ''password'' = VUndefined"
    by (simp_all add: email_only_request_def get_def)
  have a: "\<exists>f \<in> {''screenName'', ''email'', ''password''}. get (body email_only_request) f = VUndefined"
    using s by blast
  have b: "create \<in> {create, create_part_000}" by simp
  have m: "errorMessage example_deps MustExist = ''Invalid value''"
    by (simp add: example_deps_def)
  from create_reports_every_missing_field[OF a b, of example_deps example_world] s p m
  show ?thesis by auto
qed

subsection \<open>Validation: an omitted optional field\<close>













lemma getUserById_part_000_trace:
  "trace (snd (getUserById_part_000 D i w)) = trace w @ [Call False (FindByPk i)]"
  using User_findByPk_trace[of i w]
  by (auto simp: getUserById_part_000_def split: prod.splits sum.splits option.splits)

lemma update_part_000_shape:
  "\<exists>tr. trace (snd (update_part_000 D req w)) = trace w @ tr \<and> tr \<in> update_part_000_shapes D req"
proof -
  let ?i = "params_id req"
  let ?F = "Call False (FindByPk ?i)"
  obtain r w1 where g: "getUserById_part_000 D ?i w = (r, w1)"
    by (cases "getUserById_part_000 D ?i w")
  then have t1: "trace w1 = trace w @ [?F]"
    using getUserById_part_000_trace[of D ?i w] by simp
  have w0: "[?F] \<in> update_part_000_shapes D req"
    by (simp add: update_part_000_shapes_def Let_def)
  have stop: ?thesis if "snd (update_part_000 D req w) = w1"
    using that t1 w0 by auto
  show ?thesis
  proof (cases r)
    case (Inl e)
    with g show ?thesis by (intro stop) (simp add: update_part_000_def)
  next
    case (Inr x)
    obtain user notFound where x: "x = (user, notFound)" by (cases x)
    show ?thesis
    proof (cases notFound)
      case (Some nf)
      with x Inr g show ?thesis
        by (intro stop) (simp add: update_part_000_def split: option.splits)
    next
      case None
      show ?thesis
      proof (cases "runAllValidations D update_validations (body req)")
        case (Invalid fs)
        with None x Inr g show ?thesis
          by (intro stop) (simp add: update_part_000_def split: option.splits)
      next
        case (Valid vs)
        show ?thesis
        proof (cases user)
          case no_user: None
          with Valid None x Inr g show ?thesis
            by (intro stop) (simp add: update_part_000_def)
        next
          case (Some u)
          let ?U = "Call False (Update ?i vs)"
          obtain q w2 where up: "User_update D ?i vs False w1 = (q, w2)"
            by (cases "User_update D ?i vs False w1")
          then have t2: "trace w2 = trace w @ [?F, ?U]"
            using User_update_trace[of D ?i vs False w1] t1 by simp
          show ?thesis
          proof (cases q)
            case (Inl e)
            with up Some Valid None x Inr g have "snd (update_part_000 D req w) = w2"
              by (simp add: update_part_000_def)
            moreover have "[?F, ?U] \<in> update_part_000_shapes D req"
              using Valid by (simp add: update_part_000_shapes_def Let_def)
            ultimately show ?thesis using t2 by auto
          next
            case ok: (Inr u')
            with up Some Valid None x Inr g
            have "snd (update_part_000 D req w) = snd (User_reload ?i w2)"
              by (simp add: update_part_000_def split: prod.splits sum.splits)
            then have "trace (snd (update_part_000 D req w)) = trace w @ [?F, ?U, Call False (Reload ?i)]"
              using User_reload_trace[of ?i w2] t2 by simp
            moreover have "[?F, ?U, Call False (Reload ?i)] \<in> update_part_000_shapes D req"
              using Valid by (simp add: update_part_000_shapes_def Let_def)
            ultimately show ?thesis by auto
          qed
        qed
      qed
    qed
  qed
qed








lemma example_row_after_update:
  "map_of (table (snd (update example_deps rename_request example_world))) ''1''
   = Some [(''id'', VString ''1''), (''name'', VString ''k3x9q0a7m2d5f8z''),
           (''screenName'', VString ''@bob''), (''email'', VString ''ann@example.org''),
           (''password'', VString ''correct horse'')]"
  by code_simp


subsection \<open>The handlers of part_000 and transactions\<close>

lemma alphaNumeric_trace: "trace (snd (alphaNumeric D n w)) = trace w"
  by (simp add: alphaNumeric_def)

lemma create_part_000_trace:
  "\<exists>tr. trace (snd (create_part_000 D req w)) = trace w @ tr
        \<and> invocations tr = 0 \<and> unwrapped False tr = writes tr"
proof (cases "runAllValidations D create_validations (body req)")
  case (Invalid fs)
  then have "trace (snd (create_part_000 D req w)) = trace w @ []"
    by (simp add: create_part_000_def)
  then show ?thesis by force
next
  case (Valid vs)
  obtain g w1 where a: "alphaNumeric D 15 w = (g, w1)"
    by (cases "alphaNumeric D 15 w")
  then have t1: "trace w1 = trace w"
    using alphaNumeric_trace[of D 15 w] by simp
  let ?vs = "[(''name'', VString g), (''screenName'', get vs ''screenName''),
              (''email'', get vs ''email''), (''password'', get vs ''password'')]"
  from Valid a have "snd (create_part_000 D req w) = snd (User_create D ?vs False w1)"
    by (simp add: create_part_000_def split: prod.splits sum.splits)
  then have "trace (snd (create_part_000 D req w)) = trace w @ [Call False (Create ?vs)]"
    using User_create_trace[of D ?vs False w1] t1 by simp
  then show ?thesis by force
qed

lemma destroy_part_000_trace:
  "\<exists>tr. trace (snd (destroy_part_000 D req w)) = trace w @ tr
        \<and> invocations tr = 0 \<and> unwrapped False tr = writes tr"
proof -
  let ?i = "params_id req"
  let ?F = "Call False (FindByPk ?i)"
  obtain r w1 where g: "getUserById_part_000 D ?i w = (r, w1)"
    by (cases "getUserById_part_000 D ?i w")
  then have t1: "trace w1 = trace w @ [?F]"
    using getUserById_part_000_trace[of D ?i w] by simp
  have stop: ?thesis if "snd (destroy_part_000 D req w) = w1"
    using that t1 by force
  show ?thesis
  proof (cases r)
    case (Inl e)
    with g show ?thesis by (intro stop) (simp add: destroy_part_000_def)
  next
    case (Inr x)
    obtain user notFound where x: "x = (user, notFound)" by (cases x)
    show ?thesis
    proof (cases notFound)
      case (Some nf)
      with x Inr g show ?thesis
        by (intro stop) (simp add: destroy_part_000_def split: option.splits)
    next
      case None
      show ?thesis
      proof (cases user)
        case no_user: None
        with None x Inr g show ?thesis
          by (intro stop) (simp add: destroy_part_000_def)
      next
        case (Some u)
        with None x Inr g
        have "snd (destroy_part_000 D req w) = snd (User_destroy ?i False w1)"
          by (simp add: destroy_part_000_def split: prod.splits sum.splits)
        then have "trace (snd (destroy_part_000 D req w)) = trace w @ [?F, Call False (Destroy ?i)]"
          using User_destroy_trace[of ?i False w1] t1 by simp
        then show ?thesis by force
      qed
    qed
  qed
qed

lemma update_part_000_trace:
  "\<exists>tr. trace (snd (update_part_000 D req w)) = trace w @ tr
        \<and> invocations tr = 0 \<and> unwrapped False tr = writes tr"
proof -
  obtain tr where tr: "trace (snd (update_part_000 D req w)) = trace w @ tr"
    and sh: "tr \<in> update_part_000_shapes D req"
    using update_part_000_shape[of D req w] by blast
  from sh have "invocations tr = 0 \<and> unwrapped False tr = writes tr"
    by (auto simp: update_part_000_shapes_def Let_def split: outcome.splits)
  with tr show ?thesis by blast
qed

text \<open>
  In \<^verbatim>\<open>src/unnamed/part_000\<close> no handler enters a transaction, and every write it issues
  is issued outside one.
\<close>

lemma part_000_never_enters_transaction:
  assumes "handler \<in> {create_part_000, update_part_000, destroy_part_000}"
  shows "\<exists>tr. trace (snd (handler D req w)) = trace w @ tr
           \<and> invocations tr = 0 \<and> unwrapped False tr = writes tr"
  using assms create_part_000_trace[of D req w] update_part_000_trace[of D req w]
    destroy_part_000_trace[of D req w]
  by auto

end
